theory Spec2Isabelle
  imports Complex_Main "HOL-Library.Word"
begin

section \<open>DOM class lists\<close>

text \<open>
  An element's \<^verbatim>\<open>classList\<close> is an ordered set of tokens: \<^verbatim>\<open>add\<close> appends a token
  that is not yet there, \<^verbatim>\<open>remove\<close> deletes it, and \<^verbatim>\<open>toggle(token, force)\<close> adds
  when \<^verbatim>\<open>force\<close> is true and removes otherwise.
\<close>

type_synonym classList = "string list"

definition classList_add :: "string \<Rightarrow> classList \<Rightarrow> classList" where
  "classList_add t cl = (if t \<in> set cl then cl else cl @ [t])"

definition classList_remove :: "string \<Rightarrow> classList \<Rightarrow> classList" where
  "classList_remove t cl = removeAll t cl"

definition classList_toggle_force :: "string \<Rightarrow> bool \<Rightarrow> classList \<Rightarrow> classList" where
  "classList_toggle_force t force cl = (if force then classList_add t cl else classList_remove t cl)"

section \<open>Inline styles\<close>

text \<open>
  The inline style properties the script writes (\<^verbatim>\<open>element.style.display\<close> and so on);
  the empty string is a property that is not set.
\<close>

record el_style =
  display :: string
  opacity :: string
  transform :: string
  transition :: string

section \<open>JavaScript strings\<close>

text \<open>
  A JavaScript string is a sequence of UTF-16 code units. \<open>js\<close> writes an ASCII literal
  as such a string. \<open>isWhiteSpace\<close> is the set that both \<^verbatim>\<open>String.prototype.trim\<close> and
  the regular expression class \<^verbatim>\<open>\s\<close> use: ECMAScript's WhiteSpace (tab, vertical tab,
  form feed, the byte order mark and the space separators) and LineTerminator code points,
  all of them single code units.
\<close>

type_synonym code_unit = "16 word"
type_synonym js_string = "code_unit list"

definition js :: "string \<Rightarrow> js_string" where
  "js s = map (\<lambda>c. of_nat (of_char c)) s"

definition isWhiteSpace :: "code_unit \<Rightarrow> bool" where
  "isWhiteSpace c =
     (c \<in> {0x09, 0x0A, 0x0B, 0x0C, 0x0D, 0x20, 0xA0, 0x1680, 0x2028, 0x2029, 0x202F, 0x205F,
            0x3000, 0xFEFF}
      \<or> (0x2000 \<le> c \<and> c \<le> 0x200A))"

definition trim :: "js_string \<Rightarrow> js_string" where
  "trim s = rev (dropWhile isWhiteSpace (rev (dropWhile isWhiteSpace s)))"

section \<open>Regular expressions\<close>

text \<open>
  The fragment of the regular expression syntax that \<^verbatim>\<open>emailRegex\<close> uses: a literal
  character, a negated class \<^verbatim>\<open>[^...]\<close> of literal characters and \<^verbatim>\<open>\s\<close>,
  concatenation and repetition. \<open>Never\<close> and \<open>Empty\<close> are what remains of an
  expression while it is matched. The pattern is written between \<^verbatim>\<open>^\<close> and \<^verbatim>\<open>$\<close>
  and has no flags, so \<^verbatim>\<open>test\<close> succeeds exactly when the whole string matches;
  \<open>regex_test\<close> is that test, computed by derivatives: \<open>deriv c r\<close> lists the
  expressions that match the rest of a string once \<open>r\<close> has consumed \<open>c\<close>.
\<close>

datatype class_atom = ClassChar code_unit | ClassSpace

datatype regex =
    Never
  | Empty
  | Char code_unit
  | NotOneOf "class_atom list"
  | Seq regex regex
  | Star regex

definition Plus :: "regex \<Rightarrow> regex" where
  "Plus r = Seq r (Star r)"

fun atom_matches :: "class_atom \<Rightarrow> code_unit \<Rightarrow> bool" where
  "atom_matches (ClassChar d) c = (c = d)"
| "atom_matches ClassSpace c = isWhiteSpace c"

fun nullable :: "regex \<Rightarrow> bool" where
  "nullable Never = False"
| "nullable Empty = True"
| "nullable (Char d) = False"
| "nullable (NotOneOf as) = False"
| "nullable (Seq r s) = (nullable r \<and> nullable s)"
| "nullable (Star r) = True"

fun deriv :: "code_unit \<Rightarrow> regex \<Rightarrow> regex list" where
  "deriv c Never = []"
| "deriv c Empty = []"
| "deriv c (Char d) = (if c = d then [Empty] else [])"
| "deriv c (NotOneOf as) = (if list_ex (\<lambda>a. atom_matches a c) as then [] else [Empty])"
| "deriv c (Seq r s) = map (\<lambda>r'. Seq r' s) (deriv c r) @ (if nullable r then deriv c s else [])"
| "deriv c (Star r) = map (\<lambda>r'. Seq r' (Star r)) (deriv c r)"

fun matches_any :: "regex list \<Rightarrow> js_string \<Rightarrow> bool" where
  "matches_any rs [] = list_ex nullable rs"
| "matches_any rs (c # s) = matches_any (concat (map (deriv c) rs)) s"

definition regex_test :: "regex \<Rightarrow> js_string \<Rightarrow> bool" where
  "regex_test r s = matches_any [r] s"

text \<open>The strings an expression matches, as the usual language of a regular expression.\<close>

inductive_set star :: "js_string set \<Rightarrow> js_string set" for L where
  star_nil: "[] \<in> star L"
| star_app: "u \<in> L \<Longrightarrow> v \<in> star L \<Longrightarrow> u @ v \<in> star L"

fun lang :: "regex \<Rightarrow> js_string set" where
  "lang Never = {}"
| "lang Empty = {[]}"
| "lang (Char d) = {[d]}"
| "lang (NotOneOf as) = {[c] | c. \<not> list_ex (\<lambda>a. atom_matches a c) as}"
| "lang (Seq r s) = {u @ v | u v. u \<in> lang r \<and> v \<in> lang s}"
| "lang (Star r) = star (lang r)"

section \<open>Timers\<close>

text \<open>
  Pending \<^verbatim>\<open>setTimeout\<close> callbacks are kept as a list of pairs of the time they are
  due (in milliseconds) and the callback, in the order of the \<^verbatim>\<open>setTimeout\<close> calls.
  The event loop runs the one that is due first, and of two due at the same time the one
  that was set first.
\<close>

fun earliest :: "(nat \<times> 'a) list \<Rightarrow> (nat \<times> 'a) option" where
  "earliest [] = None"
| "earliest (t # ts) =
     (case earliest ts of
        None \<Rightarrow> Some t
      | Some u \<Rightarrow> if fst t \<le> fst u then Some t else Some u)"

section \<open>ScrollManager\<close>

text \<open>
  \<^verbatim>\<open>DOM.backToTop\<close> is the element with id \<^verbatim>\<open>backToTop\<close>, or null when the markup has
  none; the state keeps its class list. \<^verbatim>\<open>window.pageYOffset\<close> is a number of CSS
  pixels, possibly fractional.
\<close>

record scroll_dom =
  backToTop :: "classList option"

definition updateBackToTop :: "real \<Rightarrow> scroll_dom \<Rightarrow> scroll_dom" where
  "updateBackToTop pageYOffset d =
     (let scrolled = (pageYOffset > 500) in
      case backToTop d of
        None \<Rightarrow> d
      | Some cl \<Rightarrow> d\<lparr>backToTop := Some (classList_toggle_force ''visible'' scrolled cl)\<rparr>)"

definition is_visible :: "scroll_dom \<Rightarrow> bool" where
  "is_visible d = (case backToTop d of None \<Rightarrow> False | Some cl \<Rightarrow> ''visible'' \<in> set cl)"

section \<open>ThemeManager\<close>

text \<open>
  The browser side of the theme: the \<^verbatim>\<open>data-theme\<close> attribute of the document element
  (absent until the script sets it) and \<^verbatim>\<open>localStorage\<close>, a store of strings by key that
  outlives the page. The controller adds its field \<^verbatim>\<open>currentTheme\<close>.
\<close>

record browser =
  data_theme :: "string option"
  localStorage :: "string \<rightharpoonup> string"

record ThemeManager = browser +
  currentTheme :: string

text \<open>JavaScript's \<^verbatim>\<open>x || d\<close> on a string or null: null and the empty string are falsy.\<close>

definition or_default :: "string option \<Rightarrow> string \<Rightarrow> string" where
  "or_default v d = (case v of None \<Rightarrow> d | Some x \<Rightarrow> if x = [] then d else x)"

definition applyTheme :: "ThemeManager \<Rightarrow> ThemeManager" where
  "applyTheme m = m\<lparr>data_theme := Some (currentTheme m)\<rparr>"

definition ThemeManager_constructor :: "browser \<Rightarrow> ThemeManager" where
  "ThemeManager_constructor b =
     applyTheme \<lparr>data_theme = data_theme b, localStorage = localStorage b,
                 currentTheme = or_default (localStorage b ''theme'') ''light''\<rparr>"

definition toggleTheme :: "ThemeManager \<Rightarrow> ThemeManager" where
  "toggleTheme m =
     (let m1 = m\<lparr>currentTheme := (if currentTheme m = ''light'' then ''dark'' else ''light'')\<rparr>;
          m2 = applyTheme m1
      in m2\<lparr>localStorage := (localStorage m2)(''theme'' \<mapsto> currentTheme m2)\<rparr>)"

text \<open>
  The events the page handles after load, as far as the theme is concerned: a click on the
  theme toggle runs \<^verbatim>\<open>toggleTheme\<close>; the scroll listeners (navigation, back-to-top,
  parallax) never read or write the theme.
\<close>

datatype theme_event = ToggleClick | ScrollTo real

fun theme_step :: "ThemeManager \<Rightarrow> theme_event \<Rightarrow> ThemeManager" where
  "theme_step m ToggleClick = toggleTheme m"
| "theme_step m (ScrollTo y) = m"

definition theme_run :: "browser \<Rightarrow> theme_event list \<Rightarrow> ThemeManager" where
  "theme_run b evs = foldl theme_step (ThemeManager_constructor b) evs"

definition known_theme :: "string \<Rightarrow> bool" where
  "known_theme t = (t = ''light'' \<or> t = ''dark'')"

definition theme_ok :: "ThemeManager \<Rightarrow> bool" where
  "theme_ok m = (known_theme (currentTheme m) \<and> data_theme m = Some (currentTheme m))"

section \<open>Double-precision numbers\<close>

text \<open>
  The numbers of the script are IEEE 754 binary64 values: the finite ones (a real number,
  with \<open>Num 0\<close> for \<open>+0\<close>), \<open>-0\<close>, the two infinities and \<open>NaN\<close>. The finite doubles are
  the reals \<open>m * 2 ^ e\<close> with \<open>\<bar>m\<bar> < 2 ^ 53\<close> and \<open>- 1074 \<le> e \<le> 971\<close>; every operation
  below returns one of them when its arguments are.
\<close>

datatype f64 = Num real | NegZero | PosInf | NegInf | NaN

text \<open>The integer nearest to \<open>y\<close>, the even one of the two when \<open>y\<close> is half way.\<close>

definition round_half_even :: "real \<Rightarrow> int" where
  "round_half_even y =
     (let n = \<lfloor>y\<rfloor>; d = y - of_int n
      in if d < 1 / 2 then n else if 1 / 2 < d then n + 1 else if even n then n else n + 1)"

text \<open>
  The binary exponent of a positive real \<open>x\<close>, the integer \<open>k\<close> with
  \<open>2 ^ k \<le> x < 2 ^ (k + 1)\<close>, from the number of binary digits of the integer part
  of \<open>x\<close>, or of \<open>1 / x\<close> when \<open>x < 1\<close>.
\<close>

fun bit_length :: "nat \<Rightarrow> nat" where
  "bit_length n = (if n = 0 then 0 else Suc (bit_length (n div 2)))"

declare bit_length.simps [simp del]

definition exponent :: "real \<Rightarrow> int" where
  "exponent x =
     (if 1 \<le> x then int (bit_length (nat \<lfloor>x\<rfloor>)) - 1
      else - int (bit_length (nat (\<lceil>1 / x\<rceil> - 1))))"

text \<open>
  Rounding of a real number to the nearest double, ties to even (the rounding of every
  arithmetic operation and of a numeric literal): 53 significant bits, the exponent of the
  last one at least \<open>- 1074\<close> (subnormal numbers), overflow to an infinity from \<open>2 ^ 1024\<close>.
\<close>

definition f64_round :: "real \<Rightarrow> f64" where
  "f64_round x =
     (if x = 0 then Num 0
      else
        let e = max (exponent \<bar>x\<bar> - 52) (- 1074);
            m = round_half_even (\<bar>x\<bar> / 2 powi e);
            y = of_int m * 2 powi e
        in if 2 powi 1024 \<le> y then (if 0 < x then PosInf else NegInf)
           else if m = 0 then (if 0 < x then Num 0 else NegZero)
           else Num (if 0 < x then y else - y))"

fun val :: "f64 \<Rightarrow> real" where
  "val (Num x) = x"
| "val NegZero = 0"
| "val PosInf = 0"
| "val NegInf = 0"
| "val NaN = 0"

fun is_inf :: "f64 \<Rightarrow> bool" where
  "is_inf PosInf = True"
| "is_inf NegInf = True"
| "is_inf (Num x) = False"
| "is_inf NegZero = False"
| "is_inf NaN = False"

fun is_zero :: "f64 \<Rightarrow> bool" where
  "is_zero (Num x) = (x = 0)"
| "is_zero NegZero = True"
| "is_zero PosInf = False"
| "is_zero NegInf = False"
| "is_zero NaN = False"

fun sign_bit :: "f64 \<Rightarrow> bool" where
  "sign_bit (Num x) = (x < 0)"
| "sign_bit NegZero = True"
| "sign_bit NegInf = True"
| "sign_bit PosInf = False"
| "sign_bit NaN = False"

fun inf_rank :: "f64 \<Rightarrow> int" where
  "inf_rank PosInf = 1"
| "inf_rank NegInf = - 1"
| "inf_rank (Num x) = 0"
| "inf_rank NegZero = 0"
| "inf_rank NaN = 0"

definition signed_inf :: "bool \<Rightarrow> f64" where
  "signed_inf negative = (if negative then NegInf else PosInf)"

definition signed_zero :: "bool \<Rightarrow> f64" where
  "signed_zero negative = (if negative then NegZero else Num 0)"

text \<open>
  \<^verbatim>\<open>a - b\<close>: \<open>NaN\<close> from a \<open>NaN\<close> or from two infinities of the same sign; an exact
  difference of zero is \<open>+0\<close>, except \<open>-0 - +0\<close>; every other difference is rounded.
\<close>

definition f64_sub :: "f64 \<Rightarrow> f64 \<Rightarrow> f64" where
  "f64_sub a b =
     (if a = NaN \<or> b = NaN then NaN
      else if is_inf a then (if a = b then NaN else a)
      else if is_inf b then signed_inf (\<not> sign_bit b)
      else if val a - val b = 0 then signed_zero (a = NegZero \<and> b \<noteq> NegZero)
      else f64_round (val a - val b))"

text \<open>
  \<^verbatim>\<open>a / b\<close>: \<open>NaN\<close> from a \<open>NaN\<close>, from two infinities and from two zeros; an infinity
  when only the dividend is infinite or only the divisor is zero, a zero when only the
  divisor is infinite or only the dividend is zero, with the product of the signs; every
  other quotient is rounded.
\<close>

definition f64_div :: "f64 \<Rightarrow> f64 \<Rightarrow> f64" where
  "f64_div a b =
     (if a = NaN \<or> b = NaN then NaN
      else if is_inf a then (if is_inf b then NaN else signed_inf (sign_bit a \<noteq> sign_bit b))
      else if is_inf b then signed_zero (sign_bit a \<noteq> sign_bit b)
      else if is_zero b then (if is_zero a then NaN else signed_inf (sign_bit a \<noteq> sign_bit b))
      else if is_zero a then signed_zero (sign_bit a \<noteq> sign_bit b)
      else f64_round (val a / val b))"

text \<open>
  \<^verbatim>\<open>a < b\<close> and \<^verbatim>\<open>a >= b\<close>: false when either side is \<open>NaN\<close>; the two zeros are equal.
\<close>

definition f64_lt :: "f64 \<Rightarrow> f64 \<Rightarrow> bool" where
  "f64_lt a b =
     (a \<noteq> NaN \<and> b \<noteq> NaN
      \<and> (inf_rank a < inf_rank b \<or> (inf_rank a = inf_rank b \<and> val a < val b)))"

definition f64_ge :: "f64 \<Rightarrow> f64 \<Rightarrow> bool" where
  "f64_ge a b = (a \<noteq> NaN \<and> b \<noteq> NaN \<and> \<not> f64_lt a b)"

text \<open>
  \<^verbatim>\<open>Math.min\<close> and \<^verbatim>\<open>Math.max\<close> of two numbers: \<open>NaN\<close> when either is, and \<open>-0\<close> counts
  as smaller than \<open>+0\<close>.
\<close>

definition Math_min :: "f64 \<Rightarrow> f64 \<Rightarrow> f64" where
  "Math_min a b =
     (if a = NaN \<or> b = NaN then NaN
      else if f64_lt a b then a
      else if f64_lt b a then b
      else if a = NegZero then a else b)"

definition Math_max :: "f64 \<Rightarrow> f64 \<Rightarrow> f64" where
  "Math_max a b =
     (if a = NaN \<or> b = NaN then NaN
      else if f64_lt a b then b
      else if f64_lt b a then a
      else if a = NegZero then b else a)"

text \<open>A value that is a double: rounding leaves it as it is.\<close>

definition is_double :: "f64 \<Rightarrow> bool" where
  "is_double a = (case a of Num x \<Rightarrow> f64_round x = Num x | _ \<Rightarrow> True)"

section \<open>Navigation\<close>

text \<open>
  A navigation link (\<^verbatim>\<open>.nav-link\<close>) with its \<^verbatim>\<open>href\<close> attribute (null when absent) and
  its class list; a section (\<^verbatim>\<open>section[id]\<close>) with its id and the top and bottom of its
  bounding client rectangle at the moment of the update. Coordinates are CSS pixels, as
  double-precision numbers, and so is \<^verbatim>\<open>window.innerHeight\<close>.
\<close>

record nav_link =
  href :: "string option"
  classes :: classList

record section_el =
  sec_id :: string
  rect_top :: f64
  rect_bottom :: f64

record Navigation =
  activeSection :: "string option"
  navLinks :: "nav_link list"

text \<open>
  \<^verbatim>\<open>isElementInViewport(element, threshold)\<close>, with \<^verbatim>\<open>window.innerHeight\<close> as a
  parameter and null as \<open>None\<close>. The two differences and the quotient are each rounded;
  the literal \<^verbatim>\<open>0\<close> is \<open>+0\<close>.
\<close>

definition isElementInViewport :: "f64 \<Rightarrow> section_el option \<Rightarrow> f64 \<Rightarrow> bool" where
  "isElementInViewport innerHeight element threshold =
     (case element of
        None \<Rightarrow> False
      | Some el \<Rightarrow>
          (let elementHeight = f64_sub (rect_bottom el) (rect_top el);
               visibleHeight = f64_sub (Math_min (rect_bottom el) innerHeight)
                                       (Math_max (rect_top el) (Num 0))
           in f64_ge (f64_div visibleHeight elementHeight) threshold))"

definition updateActiveNavLink :: "string \<Rightarrow> nav_link list \<Rightarrow> nav_link list" where
  "updateActiveNavLink sectionId links =
     map (\<lambda>link.
            let l1 = link\<lparr>classes := classList_remove ''active'' (classes link)\<rparr>
            in if href l1 = Some (''#'' @ sectionId)
               then l1\<lparr>classes := classList_add ''active'' (classes l1)\<rparr>
               else l1) links"

text \<open>
  The loop of \<^verbatim>\<open>updateActiveSection\<close> over the sections in document order. The literal
  \<^verbatim>\<open>0.3\<close> is the double nearest to three tenths.
\<close>

definition current_section :: "f64 \<Rightarrow> section_el list \<Rightarrow> string" where
  "current_section innerHeight sections =
     foldl (\<lambda>current section.
              if isElementInViewport innerHeight (Some section) (f64_round (3 / 10))
              then sec_id section else current) [] sections"

definition updateActiveSection :: "f64 \<Rightarrow> section_el list \<Rightarrow> Navigation \<Rightarrow> Navigation" where
  "updateActiveSection innerHeight sections n =
     (let current = current_section innerHeight sections in
      if Some current \<noteq> activeSection n
      then n\<lparr>activeSection := Some current,
             navLinks := updateActiveNavLink current (navLinks n)\<rparr>
      else n)"

text \<open>
  The constructor starts with \<^verbatim>\<open>activeSection = null\<close> and the links as the markup has
  them, and \<^verbatim>\<open>init\<close> runs the first update on load. Every later scroll recomputation
  runs the update on the geometry of that moment: the window's inner height and the
  sections in document order.
\<close>

definition Navigation_constructor ::
  "nav_link list \<Rightarrow> f64 \<times> section_el list \<Rightarrow> Navigation" where
  "Navigation_constructor links g =
     updateActiveSection (fst g) (snd g) \<lparr>activeSection = None, navLinks = links\<rparr>"

definition nav_run ::
  "nav_link list \<Rightarrow> f64 \<times> section_el list \<Rightarrow> (f64 \<times> section_el list) list \<Rightarrow> Navigation" where
  "nav_run links g0 gs =
     foldl (\<lambda>n g. updateActiveSection (fst g) (snd g) n) (Navigation_constructor links g0) gs"

definition is_active :: "nav_link \<Rightarrow> bool" where
  "is_active l = (''active'' \<in> set (classes l))"

fun link_hrefs :: "nav_link list \<Rightarrow> string list" where
  "link_hrefs [] = []"
| "link_hrefs (l # ls) = (case href l of None \<Rightarrow> link_hrefs ls | Some h \<Rightarrow> h # link_hrefs ls)"

text \<open>The sections that pass the test of the loop, in document order.\<close>

definition qualifying :: "f64 \<Rightarrow> section_el list \<Rightarrow> section_el list" where
  "qualifying innerHeight sections =
     filter (\<lambda>s. isElementInViewport innerHeight (Some s) (f64_round (3 / 10))) sections"

text \<open>
  The specification's wording of the test, over the real numbers: the part of the
  rectangle from \<open>t\<close> (its top) to \<open>b\<close> (its bottom) inside the viewport, which
  goes from 0 to \<open>h\<close>, is at least 30% of the height of the rectangle.
\<close>

definition visible_height :: "real \<Rightarrow> real \<Rightarrow> real \<Rightarrow> real" where
  "visible_height h t b = max 0 (min b h - max t 0)"

definition spec_30_percent_visible :: "real \<Rightarrow> real \<Rightarrow> real \<Rightarrow> bool" where
  "spec_30_percent_visible h t b = (3 / 10 * (b - t) \<le> visible_height h t b)"

text \<open>
  Geometry in whole pixels: the inner height and the coordinates of every section are
  integers of magnitude at most \<open>2 ^ 50\<close>, and every section has positive height. The
  sections that qualify by the specification's wording of the test.
\<close>

definition integer_pixel :: "f64 \<Rightarrow> bool" where
  "integer_pixel a = (case a of Num x \<Rightarrow> of_int \<lfloor>x\<rfloor> = x \<and> \<bar>x\<bar> \<le> 2 ^ 50 | _ \<Rightarrow> False)"

definition integer_geometry :: "f64 \<Rightarrow> section_el list \<Rightarrow> bool" where
  "integer_geometry h secs =
     (integer_pixel h
      \<and> list_all (\<lambda>s. integer_pixel (rect_top s) \<and> integer_pixel (rect_bottom s)
                       \<and> val (rect_top s) < val (rect_bottom s)) secs)"

definition spec_qualifying :: "f64 \<Rightarrow> section_el list \<Rightarrow> section_el list" where
  "spec_qualifying h secs =
     filter (\<lambda>s. spec_30_percent_visible (val h) (val (rect_top s)) (val (rect_bottom s))) secs"

text \<open>
  The state the navigation is in after any update: \<^verbatim>\<open>activeSection\<close> is a string, and
  a link carries \<^verbatim>\<open>active\<close> exactly when its \<^verbatim>\<open>href\<close> is \<^verbatim>\<open>#\<close> followed by it.
\<close>

definition nav_inv :: "Navigation \<Rightarrow> bool" where
  "nav_inv n =
     (case activeSection n of
        None \<Rightarrow> False
      | Some a \<Rightarrow> list_all (\<lambda>l. is_active l = (href l = Some (''#'' @ a))) (navLinks n))"

section \<open>FormManager\<close>

text \<open>
  The part of the document the form controller reads and writes.

  \<^item> \<open>controls\<close>: the elements that carry a \<^verbatim>\<open>name\<close> attribute, by that name. They are
    the controls of the contact form, one per name, so that
    \<^verbatim>\<open>document.querySelector('[name="..."]')\<close> finds the control whose value
    \<^verbatim>\<open>FormData\<close> reports under that name. A control has its current value, its
    \<^verbatim>\<open>style.borderColor\<close>, its parent node, whether it has the \<^verbatim>\<open>required\<close>
    attribute, and the default value that \<^verbatim>\<open>form.reset()\<close> restores.
  \<^item> \<open>error_messages\<close>: for every parent node, the texts of the \<^verbatim>\<open>.error-message\<close>
    elements below it in document order. Parent nodes of different controls do not
    contain one another.
  \<^item> \<open>submitBtn\<close>: the form's \<^verbatim>\<open>button[type="submit"]\<close>, or null.
  \<^item> \<open>success_messages\<close>: the \<^verbatim>\<open>.success-message\<close> elements in front of the form, in
    document order; \<open>next_node\<close> is the element the next \<^verbatim>\<open>createElement\<close> for a banner
    returns.
  \<^item> \<open>now\<close>, \<open>timeouts\<close>: the clock in milliseconds and the pending timers.
\<close>

record field_el =
  fvalue :: js_string
  borderColor :: string
  parentNode :: nat
  required :: bool
  defaultValue :: js_string

record button_el =
  innerHTML :: string
  disabled :: bool

datatype timeout_callback = SubmitDone string | RemoveSuccess nat

datatype js_error = TypeError

record form_page =
  controls :: "string \<rightharpoonup> field_el"
  error_messages :: "nat \<Rightarrow> string list"
  submitBtn :: "button_el option"
  success_messages :: "nat list"
  next_node :: nat
  now :: nat
  timeouts :: "(nat \<times> timeout_callback) list"

text \<open>
  \<^verbatim>\<open>parentNode.querySelector('.error-message')\<close> finds the first error message below the
  parent, and \<^verbatim>\<open>remove()\<close> takes it out.
\<close>

definition remove_existing :: "string list \<Rightarrow> string list" where
  "remove_existing errs = (case errs of [] \<Rightarrow> [] | e # es \<Rightarrow> es)"

definition showFieldError :: "string \<Rightarrow> string \<Rightarrow> form_page \<Rightarrow> form_page" where
  "showFieldError fieldName message p =
     (case controls p fieldName of
        None \<Rightarrow> p
      | Some field \<Rightarrow>
          p\<lparr>controls := (controls p)(fieldName \<mapsto> field\<lparr>borderColor := ''#ef4444''\<rparr>),
            error_messages := (error_messages p)
              (parentNode field := remove_existing (error_messages p (parentNode field)) @ [message])\<rparr>)"

definition clearFieldError :: "string \<Rightarrow> form_page \<Rightarrow> form_page" where
  "clearFieldError fieldName p =
     (case controls p fieldName of
        None \<Rightarrow> p
      | Some field \<Rightarrow>
          p\<lparr>controls := (controls p)(fieldName \<mapsto> field\<lparr>borderColor := []\<rparr>),
            error_messages := (error_messages p)
              (parentNode field := remove_existing (error_messages p (parentNode field)))\<rparr>)"

definition emailRegex :: regex where
  "emailRegex =
     Seq (Plus (NotOneOf [ClassSpace, ClassChar 0x40]))
       (Seq (Char 0x40)
         (Seq (Plus (NotOneOf [ClassSpace, ClassChar 0x40]))
           (Seq (Char 0x2E) (Plus (NotOneOf [ClassSpace, ClassChar 0x40])))))"

definition isValidEmail :: "js_string \<Rightarrow> bool" where
  "isValidEmail email = regex_test emailRegex email"

definition requiredFields :: "string list" where
  "requiredFields = [''name'', ''email'', ''subject'', ''message'']"

text \<open>
  \<^verbatim>\<open>!data[field] || data[field].trim() === ''\<close>: the entry is missing (undefined), the
  empty string, or nothing but white space. \<^verbatim>\<open>data.email && !isValidEmail(data.email)\<close>:
  the entry is a non-empty string that the pattern rejects.
\<close>

definition is_blank :: "js_string option \<Rightarrow> bool" where
  "is_blank v = (case v of None \<Rightarrow> True | Some s \<Rightarrow> s = [] \<or> trim s = [])"

definition email_rejected :: "js_string option \<Rightarrow> bool" where
  "email_rejected v = (case v of None \<Rightarrow> False | Some e \<Rightarrow> e \<noteq> [] \<and> \<not> isValidEmail e)"

text \<open>The body of the loop over \<^verbatim>\<open>requiredFields\<close>, on the pair of \<^verbatim>\<open>isValid\<close> and the page.\<close>

definition check_required ::
  "(string \<rightharpoonup> js_string) \<Rightarrow> bool \<times> form_page \<Rightarrow> string \<Rightarrow> bool \<times> form_page" where
  "check_required data st field =
     (if is_blank (data field)
      then (False, showFieldError field ''This field is required'' (snd st))
      else st)"

definition validateForm :: "(string \<rightharpoonup> js_string) \<Rightarrow> form_page \<Rightarrow> bool \<times> form_page" where
  "validateForm data p =
     (let st = foldl (check_required data) (True, p) requiredFields in
      if email_rejected (data ''email'')
      then (False, showFieldError ''email'' ''Please enter a valid email address'' (snd st))
      else st)"

text \<open>
  \<^verbatim>\<open>validateField\<close> runs on blur with the control that lost the focus; \<open>fieldName\<close> is its
  \<^verbatim>\<open>name\<close> attribute.
\<close>

definition validateField :: "string \<Rightarrow> field_el \<Rightarrow> form_page \<Rightarrow> bool \<times> form_page" where
  "validateField fieldName field p =
     (let val = trim (fvalue field);
          p1 = clearFieldError fieldName p
      in if required field \<and> val = []
         then (False, showFieldError fieldName ''This field is required'' p1)
         else if fieldName = ''email'' \<and> val \<noteq> [] \<and> \<not> isValidEmail val
         then (False, showFieldError fieldName ''Please enter a valid email address'' p1)
         else (True, p1))"

text \<open>\<^verbatim>\<open>Object.fromEntries(new FormData(form).entries())\<close>: the value of every control.\<close>

definition form_data :: "form_page \<Rightarrow> (string \<rightharpoonup> js_string)" where
  "form_data p = (\<lambda>n. map_option fvalue (controls p n))"

definition busy_label :: string where
  \<open>busy_label = ''<i class="fas fa-spinner fa-spin"></i> Sending...''\<close>

text \<open>
  The submit handler. Reading \<^verbatim>\<open>innerHTML\<close> of a missing submit button throws a
  \<^verbatim>\<open>TypeError\<close>. The callback passed to \<^verbatim>\<open>setTimeout\<close> keeps \<^verbatim>\<open>originalText\<close>.
\<close>

definition handleContactForm :: "form_page \<Rightarrow> js_error + form_page" where
  "handleContactForm p =
     (let data = form_data p;
          (isValid, p1) = validateForm data p
      in if \<not> isValid then Inr p1
         else case submitBtn p1 of
                None \<Rightarrow> Inl TypeError
              | Some btn \<Rightarrow>
                  Inr (p1\<lparr>submitBtn := Some (btn\<lparr>innerHTML := busy_label, disabled := True\<rparr>),
                          timeouts := timeouts p1 @ [(now p1 + 2000, SubmitDone (innerHTML btn))]\<rparr>))"

text \<open>
  \<^verbatim>\<open>showFormSuccess\<close> creates the banner, inserts it directly in front of the form, behind
  the banners that are already there, and sets the timer that removes it. The scroll to
  the banner is not part of the state.
\<close>

definition showFormSuccess :: "form_page \<Rightarrow> form_page" where
  "showFormSuccess p =
     p\<lparr>success_messages := success_messages p @ [next_node p],
       next_node := next_node p + 1,
       timeouts := timeouts p @ [(now p + 5000, RemoveSuccess (next_node p))]\<rparr>"

definition form_reset :: "form_page \<Rightarrow> form_page" where
  "form_reset p =
     p\<lparr>controls := (\<lambda>n. map_option (\<lambda>f. f\<lparr>fvalue := defaultValue f\<rparr>) (controls p n))\<rparr>"

fun run_callback :: "timeout_callback \<Rightarrow> form_page \<Rightarrow> js_error + form_page" where
  "run_callback (SubmitDone originalText) p =
     (let p1 = showFormSuccess p;
          p2 = form_reset p1
      in case submitBtn p2 of
           None \<Rightarrow> Inl TypeError
         | Some btn \<Rightarrow>
             Inr (p2\<lparr>submitBtn := Some (btn\<lparr>innerHTML := originalText, disabled := False\<rparr>)\<rparr>))"
| "run_callback (RemoveSuccess node) p =
     Inr (p\<lparr>success_messages := removeAll node (success_messages p)\<rparr>)"

text \<open>
  The event loop up to time \<open>T\<close>, with no other event in between: the pending timers
  that are due by then fire in the order in which they are due, each at its time, and so
  do the timers their callbacks set. A callback that throws ends the run with its error.
  A \<^verbatim>\<open>SubmitDone\<close> callback sets one timer and a \<^verbatim>\<open>RemoveSuccess\<close> callback none,
  which \<open>timeout_weight\<close> counts.
\<close>

fun timeout_weight :: "timeout_callback \<Rightarrow> nat" where
  "timeout_weight (SubmitDone originalText) = 2"
| "timeout_weight (RemoveSuccess node) = 1"

function run_page_until :: "nat \<Rightarrow> form_page \<Rightarrow> js_error + form_page" where
  "run_page_until T p =
     (case earliest (timeouts p) of
        None \<Rightarrow> Inr (p\<lparr>now := max (now p) T\<rparr>)
      | Some t \<Rightarrow>
          if fst t \<le> T
          then (case run_callback (snd t)
                       (p\<lparr>timeouts := remove1 t (timeouts p), now := max (now p) (fst t)\<rparr>) of
                  Inl err \<Rightarrow> Inl err
                | Inr p' \<Rightarrow> run_page_until T p')
          else Inr (p\<lparr>now := max (now p) T\<rparr>))"
  by pat_completeness auto
termination
proof (relation "measure (\<lambda>(T, p). sum_list (map (\<lambda>t. timeout_weight (snd t)) (timeouts p)))")
  show "wf (measure (\<lambda>(T, p). sum_list (map (\<lambda>t. timeout_weight (snd t)) (timeouts p))))"
    by simp
next
  fix T :: nat and p :: form_page and t :: "nat \<times> timeout_callback" and p' :: form_page
  let ?w = "\<lambda>t::nat \<times> timeout_callback. timeout_weight (snd t)"
  let ?q = "p\<lparr>timeouts := remove1 t (timeouts p), now := max (now p) (fst t)\<rparr>"
  assume e: "earliest (timeouts p) = Some t" and "fst t \<le> T"
    and r: "run_callback (snd t) ?q = Inr p'"
  have "earliest ts = Some u \<Longrightarrow> u \<in> set ts" for ts :: "(nat \<times> timeout_callback) list" and u
    by (induction ts arbitrary: u) (auto split: option.splits if_splits)
  from this [OF e] have "sum_list (map ?w (timeouts p)) = ?w t + sum_list (map ?w (timeouts ?q))"
    by (simp add: sum_list_map_remove1)
  moreover have "sum_list (map ?w (timeouts p')) < ?w t + sum_list (map ?w (timeouts ?q))"
    using r
    by (cases "snd t")
       (auto simp add: showFormSuccess_def form_reset_def Let_def split: option.splits)
  ultimately show "((T, p'), T, p)
      \<in> measure (\<lambda>(T, p). sum_list (map (\<lambda>t. timeout_weight (snd t)) (timeouts p)))"
    by simp
qed

declare run_page_until.simps [simp del]

text \<open>
  Modelled from the spec: the markup of the contact form (\<^verbatim>\<open>index.html\<close>), which section 6
  describes as a form element with fields named \<^verbatim>\<open>name\<close>, \<^verbatim>\<open>email\<close>, \<^verbatim>\<open>subject\<close>
  and \<^verbatim>\<open>message\<close> and a submit control. Here every field is required, has its own
  parent node and an empty default value; the page is at rest (no error shown, no timer
  pending) and the four values are as given.
\<close>

definition contact_form :: "js_string \<Rightarrow> js_string \<Rightarrow> js_string \<Rightarrow> js_string \<Rightarrow> form_page" where
  "contact_form name_value email_value subject_value message_value =
     \<lparr>controls =
        [''name'' \<mapsto> \<lparr>fvalue = name_value, borderColor = [], parentNode = 1,
                       required = True, defaultValue = []\<rparr>,
         ''email'' \<mapsto> \<lparr>fvalue = email_value, borderColor = [], parentNode = 2,
                        required = True, defaultValue = []\<rparr>,
         ''subject'' \<mapsto> \<lparr>fvalue = subject_value, borderColor = [], parentNode = 3,
                          required = True, defaultValue = []\<rparr>,
         ''message'' \<mapsto> \<lparr>fvalue = message_value, borderColor = [], parentNode = 4,
                          required = True, defaultValue = []\<rparr>],
      error_messages = (\<lambda>node. []),
      submitBtn = Some \<lparr>innerHTML = ''Send Message'', disabled = False\<rparr>,
      success_messages = [], next_node = 5, now = 0, timeouts = []\<rparr>"

text \<open>
  What the statements about the form speak of: an inline error is shown next to a field
  (\<open>marked\<close>) when the field has the error border and its parent node holds an error
  message; a field fails validation (\<open>field_fails\<close>) when the required check or the email
  check rejects its entry; \<open>only_marks\<close> relates two pages that differ at most in
  borders and error messages, none of which was taken away; \<open>all_default\<close> relates a
  page to the one with every control back at its default value. \<open>part_char\<close> and
  \<open>local_at_domain_tld\<close> spell out the shape \<^verbatim>\<open>local@domain.tld\<close> in the words of the
  specification: three non-empty parts without white space or \<^verbatim>\<open>@\<close>, joined by an
  \<^verbatim>\<open>@\<close> and a dot.
\<close>

definition marked :: "form_page \<Rightarrow> string \<Rightarrow> bool" where
  "marked p g =
     (case controls p g of
        None \<Rightarrow> False
      | Some d \<Rightarrow> borderColor d = ''#ef4444'' \<and> error_messages p (parentNode d) \<noteq> [])"

definition field_fails :: "(string \<rightharpoonup> js_string) \<Rightarrow> string \<Rightarrow> bool" where
  "field_fails data g = (is_blank (data g) \<or> (g = ''email'' \<and> email_rejected (data g)))"

definition only_marks :: "form_page \<Rightarrow> form_page \<Rightarrow> bool" where
  "only_marks p p' =
     (submitBtn p' = submitBtn p \<and> timeouts p' = timeouts p \<and> now p' = now p
      \<and> success_messages p' = success_messages p \<and> next_node p' = next_node p
      \<and> form_data p' = form_data p
      \<and> (\<forall>g. controls p g \<noteq> None \<longrightarrow> controls p' g \<noteq> None)
      \<and> (\<forall>g. marked p g \<longrightarrow> marked p' g))"

definition all_default :: "form_page \<Rightarrow> form_page \<Rightarrow> bool" where
  "all_default q q' =
     (\<forall>g. case controls q g of
             None \<Rightarrow> controls q' g = None
           | Some d \<Rightarrow> controls q' g = Some (d\<lparr>fvalue := defaultValue d\<rparr>))"

definition part_char :: "code_unit \<Rightarrow> bool" where
  "part_char c = (\<not> isWhiteSpace c \<and> c \<noteq> 0x40)"

definition local_at_domain_tld :: "js_string \<Rightarrow> bool" where
  "local_at_domain_tld e =
     (\<exists>a b c. e = a @ [0x40] @ b @ [0x2E] @ c \<and> a \<noteq> [] \<and> b \<noteq> [] \<and> c \<noteq> []
        \<and> list_all part_char a \<and> list_all part_char b \<and> list_all part_char c)"

text \<open>
  No submission is in flight on a page (\<open>page_idle\<close>) when every pending timer removes
  a banner, and the element the next banner will be is new: no timer waits for it and it
  is not in the document. \<open>submit_pending D orig q\<close>: on the page \<open>q\<close> exactly one
  submission is in flight, its callback is due at \<open>D\<close> and keeps the label \<open>orig\<close>.
\<close>

definition is_removal :: "nat \<times> timeout_callback \<Rightarrow> bool" where
  "is_removal t = (case snd t of SubmitDone originalText \<Rightarrow> False | RemoveSuccess node \<Rightarrow> True)"

definition page_idle :: "form_page \<Rightarrow> bool" where
  "page_idle p =
     (list_all (\<lambda>t. is_removal t \<and> snd t \<noteq> RemoveSuccess (next_node p)) (timeouts p)
      \<and> next_node p \<notin> set (success_messages p))"

definition submit_pending :: "nat \<Rightarrow> string \<Rightarrow> form_page \<Rightarrow> bool" where
  "submit_pending D orig q =
     (filter (\<lambda>t. \<not> is_removal t) (timeouts q) = [(D, SubmitDone orig)]
      \<and> list_all (\<lambda>t. snd t \<noteq> RemoveSuccess (next_node q)) (timeouts q)
      \<and> next_node q \<notin> set (success_messages q)
      \<and> now q \<le> D)"

section \<open>ProjectGallery\<close>

text \<open>
  A project card (\<^verbatim>\<open>.project-card\<close>) is a styled element with its \<^verbatim>\<open>data-category\<close>
  attribute (undefined when absent). The click handler of a filter button reads the
  button's \<^verbatim>\<open>data-filter\<close> attribute \<open>flt\<close> and visits the cards in document order;
  the callbacks it passes to \<^verbatim>\<open>setTimeout\<close> keep the card they were made for, here its
  position in the list. The highlighting of the clicked button is left out.
\<close>

record card_el = el_style +
  category :: "string option"

datatype card_callback = ShowCard nat | HideCard nat

record gallery =
  cards :: "card_el list"
  g_now :: nat
  g_timeouts :: "(nat \<times> card_callback) list"

definition card_matches :: "string option \<Rightarrow> card_el \<Rightarrow> bool" where
  "card_matches flt c = (flt = Some ''all'' \<or> category c = flt)"

definition filter_card :: "string option \<Rightarrow> gallery \<Rightarrow> nat \<Rightarrow> gallery" where
  "filter_card flt g i =
     (let c = cards g ! i in
      if card_matches flt c
      then g\<lparr>cards := (cards g)[i := c\<lparr>display := ''block''\<rparr>],
             g_timeouts := g_timeouts g @ [(g_now g + 50, ShowCard i)]\<rparr>
      else g\<lparr>cards := (cards g)[i := c\<lparr>opacity := ''0'', transform := ''scale(0.8)''\<rparr>],
             g_timeouts := g_timeouts g @ [(g_now g + 300, HideCard i)]\<rparr>)"

definition filterClick :: "string option \<Rightarrow> gallery \<Rightarrow> gallery" where
  "filterClick flt g = foldl (filter_card flt) g [0..<length (cards g)]"

fun run_card_callback :: "card_callback \<Rightarrow> gallery \<Rightarrow> gallery" where
  "run_card_callback (ShowCard i) g =
     g\<lparr>cards := (cards g)[i := (cards g ! i)\<lparr>opacity := ''1'', transform := ''scale(1)''\<rparr>]\<rparr>"
| "run_card_callback (HideCard i) g =
     g\<lparr>cards := (cards g)[i := (cards g ! i)\<lparr>display := ''none''\<rparr>]\<rparr>"

text \<open>
  The event loop up to time \<open>T\<close>: the pending timers that are due by then fire in the
  order in which they are due, each at its time. The callbacks of the gallery set no
  timers, so every turn shortens the list.
\<close>

function run_until :: "nat \<Rightarrow> gallery \<Rightarrow> gallery" where
  "run_until T g =
     (case earliest (g_timeouts g) of
        None \<Rightarrow> g\<lparr>g_now := max (g_now g) T\<rparr>
      | Some t \<Rightarrow>
          if fst t \<le> T
          then run_until T (run_card_callback (snd t)
                 (g\<lparr>g_timeouts := remove1 t (g_timeouts g), g_now := max (g_now g) (fst t)\<rparr>))
          else g\<lparr>g_now := max (g_now g) T\<rparr>)"
  by pat_completeness auto
termination
proof (relation "measure (\<lambda>(T, g). length (g_timeouts g))")
  show "wf (measure (\<lambda>(T, g). length (g_timeouts g)))" by simp
next
  fix T :: nat and g :: gallery and t :: "nat \<times> card_callback"
  assume e: "earliest (g_timeouts g) = Some t"
  have "earliest ts = Some u \<Longrightarrow> u \<in> set ts" for ts :: "(nat \<times> card_callback) list" and u
    by (induction ts arbitrary: u) (auto split: option.splits if_splits)
  from this [OF e] have "length (remove1 t (g_timeouts g)) < length (g_timeouts g)"
    by (simp add: length_remove1) (cases "g_timeouts g", auto)
  moreover have "g_timeouts (run_card_callback cb h) = g_timeouts h" for cb h
    by (cases cb) simp_all
  ultimately show "((T, run_card_callback (snd t)
        (g\<lparr>g_timeouts := remove1 t (g_timeouts g), g_now := max (g_now g) (fst t)\<rparr>)), T, g)
      \<in> measure (\<lambda>(T, g). length (g_timeouts g))"
    by simp
qed

declare run_until.simps [simp del]

text \<open>A click on a filter button at time \<open>t\<close>, after everything due by then has run.\<close>

definition click_at :: "nat \<Rightarrow> string option \<Rightarrow> gallery \<Rightarrow> gallery" where
  "click_at t flt g = filterClick flt (run_until t g)"

text \<open>
  What one click does to a card at once and which timer it sets for the card at position
  \<open>i\<close>; \<open>settled_card cbs i c c'\<close> says that \<open>c'\<close> is the card \<open>c\<close> after the callbacks
  \<open>cbs\<close> have run.
\<close>

definition click_style :: "string option \<Rightarrow> card_el \<Rightarrow> card_el" where
  "click_style flt c =
     (if card_matches flt c then c\<lparr>display := ''block''\<rparr>
      else c\<lparr>opacity := ''0'', transform := ''scale(0.8)''\<rparr>)"

definition click_timeout :: "string option \<Rightarrow> gallery \<Rightarrow> nat \<Rightarrow> nat \<times> card_callback" where
  "click_timeout flt g i =
     (if card_matches flt (cards g ! i) then (g_now g + 50, ShowCard i)
      else (g_now g + 300, HideCard i))"

definition settled_card :: "card_callback set \<Rightarrow> nat \<Rightarrow> card_el \<Rightarrow> card_el \<Rightarrow> bool" where
  "settled_card cbs i c c' =
     (display c' = (if HideCard i \<in> cbs then ''none'' else display c)
      \<and> opacity c' = (if ShowCard i \<in> cbs then ''1'' else opacity c)
      \<and> transform c' = (if ShowCard i \<in> cbs then ''scale(1)'' else transform c)
      \<and> category c' = category c)"

section \<open>AnimationManager\<close>

text \<open>
  Elements are numbered. The controller owns an \<^verbatim>\<open>IntersectionObserver\<close> with its options
  and the set of elements it observes, and writes the inline styles of the elements.
  \<open>reveals\<close> is a history variable: the elements \<^verbatim>\<open>animateElement\<close> was called for, in
  the order of the calls. \<open>selected\<close> lists, for each of the six selectors of
  \<^verbatim>\<open>observeElements\<close>, the elements it selects in document order. The parallax effect
  writes the \<^verbatim>\<open>.hero\<close> element only, which is none of the observed ones.
\<close>

record IntersectionObserver =
  threshold :: real
  rootMargin :: string
  targets :: "nat set"

record IntersectionObserverEntry =
  target :: nat
  isIntersecting :: bool

record AnimationManager =
  styles :: "nat \<Rightarrow> el_style"
  observer :: IntersectionObserver
  reveals :: "nat list"

definition observe_element :: "AnimationManager \<Rightarrow> nat \<Rightarrow> AnimationManager" where
  "observe_element m element =
     m\<lparr>styles := (styles m)(element := (styles m element)
           \<lparr>opacity := ''0'', transform := ''translateY(30px)'',
            transition := ''opacity 0.6s ease, transform 0.6s ease''\<rparr>),
       observer := (observer m)\<lparr>targets := insert element (targets (observer m))\<rparr>\<rparr>"

definition observeElements :: "nat list list \<Rightarrow> AnimationManager \<Rightarrow> AnimationManager" where
  "observeElements selected m = foldl (\<lambda>m els. foldl observe_element m els) m selected"

definition animateElement :: "nat \<Rightarrow> AnimationManager \<Rightarrow> AnimationManager" where
  "animateElement element m =
     m\<lparr>styles := (styles m)(element := (styles m element)
           \<lparr>opacity := ''1'', transform := ''translateY(0)''\<rparr>),
       observer := (observer m)\<lparr>targets := targets (observer m) - {element}\<rparr>,
       reveals := reveals m @ [element]\<rparr>"

definition observer_callback ::
  "IntersectionObserverEntry list \<Rightarrow> AnimationManager \<Rightarrow> AnimationManager" where
  "observer_callback entries m =
     foldl (\<lambda>m entry. if isIntersecting entry then animateElement (target entry) m else m)
       m entries"

definition AnimationManager_constructor ::
  "(nat \<Rightarrow> el_style) \<Rightarrow> nat list list \<Rightarrow> AnimationManager" where
  "AnimationManager_constructor page_styles selected =
     observeElements selected
       \<lparr>styles = page_styles,
        observer = \<lparr>threshold = 1 / 10, rootMargin = ''0px 0px -50px 0px'', targets = {}\<rparr>,
        reveals = []\<rparr>"

text \<open>
  The browser's side of the observer: it calls the callback with a batch of entries, at
  most one for an element, and only for elements the observer observes at that moment.
  The states the controller can be in are the one after construction and those after
  such calls.
\<close>

definition delivered :: "AnimationManager \<Rightarrow> IntersectionObserverEntry list \<Rightarrow> bool" where
  "delivered m entries =
     (distinct (map target entries) \<and> list_all (\<lambda>en. target en \<in> targets (observer m)) entries)"

inductive anim_reachable ::
  "(nat \<Rightarrow> el_style) \<Rightarrow> nat list list \<Rightarrow> AnimationManager \<Rightarrow> bool"
  for page_styles selected where
    loaded: "anim_reachable page_styles selected (AnimationManager_constructor page_styles selected)"
  | notified: "anim_reachable page_styles selected m \<Longrightarrow> delivered m entries
       \<Longrightarrow> anim_reachable page_styles selected (observer_callback entries m)"

definition is_revealed :: "AnimationManager \<Rightarrow> nat \<Rightarrow> bool" where
  "is_revealed m e =
     (e \<notin> targets (observer m) \<and> opacity (styles m e) = ''1''
      \<and> transform (styles m e) = ''translateY(0)'')"

definition anim_inv :: "AnimationManager \<Rightarrow> bool" where
  "anim_inv m =
     (distinct (reveals m) \<and> list_all (is_revealed m) (reveals m)
      \<and> threshold (observer m) = 1 / 10 \<and> rootMargin (observer m) = ''0px 0px -50px 0px'')"

section \<open>Properties of the scroll controller\<close>

lemma classList_toggle_force_mem:
  "t \<in> set (classList_toggle_force t force cl) \<longleftrightarrow> force"
  by (simp add: classList_toggle_force_def classList_add_def classList_remove_def)

text \<open>
  Claim C4. Whatever classes the back-to-top control carried before, after
  \<^verbatim>\<open>updateBackToTop\<close> has run at scroll position \<open>y\<close> the control carries the class
  \<^verbatim>\<open>visible\<close> exactly when \<open>y\<close> is strictly greater than 500; in particular it is not
  marked at 500 and is marked at 501.
\<close>

theorem updateBackToTop_visible_iff:
  assumes "backToTop d = Some cl"
  shows "(is_visible (updateBackToTop y d) \<longleftrightarrow> 500 < y)
       \<and> \<not> is_visible (updateBackToTop 500 d)
       \<and> is_visible (updateBackToTop 501 d)"
  using assms
  by (simp add: updateBackToTop_def is_visible_def classList_toggle_force_mem)

theorem updateBackToTop_visible_iff_witness:
  "backToTop \<lparr>backToTop = Some [''btn'', ''visible'']\<rparr> = Some [''btn'', ''visible'']
   \<and> (is_visible (updateBackToTop (1001 / 2) \<lparr>backToTop = Some [''btn'', ''visible'']\<rparr>)
        \<longleftrightarrow> 500 < (1001 / 2 :: real))
   \<and> \<not> is_visible (updateBackToTop 500 \<lparr>backToTop = Some [''btn'', ''visible'']\<rparr>)
   \<and> is_visible (updateBackToTop 501 \<lparr>backToTop = Some [''btn'', ''visible'']\<rparr>)"
  using updateBackToTop_visible_iff
    [of "\<lparr>backToTop = Some [''btn'', ''visible'']\<rparr>" "[''btn'', ''visible'']" "1001 / 2"]
  by simp

section \<open>Properties of the theme controller\<close>

lemma toggleTheme_known: "known_theme (currentTheme (toggleTheme m))"
  by (simp add: toggleTheme_def applyTheme_def known_theme_def Let_def)

lemma toggleTheme_attr: "data_theme (toggleTheme m) = Some (currentTheme (toggleTheme m))"
  by (simp add: toggleTheme_def applyTheme_def Let_def)

lemma constructor_attr:
  "data_theme (ThemeManager_constructor b) = Some (currentTheme (ThemeManager_constructor b))"
  by (simp add: ThemeManager_constructor_def applyTheme_def)

lemma theme_step_ok: "theme_ok m \<Longrightarrow> theme_ok (theme_step m e)"
  by (cases e) (simp_all add: theme_ok_def toggleTheme_known toggleTheme_attr)

lemma foldl_theme_ok: "theme_ok m \<Longrightarrow> theme_ok (foldl theme_step m evs)"
  by (induction evs arbitrary: m) (simp_all add: theme_step_ok)

lemma constructor_ok:
  "localStorage b ''theme'' \<in> {None, Some [], Some ''light'', Some ''dark''}
   \<Longrightarrow> theme_ok (ThemeManager_constructor b)"
  by (auto simp add: theme_ok_def constructor_attr ThemeManager_constructor_def applyTheme_def
      or_default_def known_theme_def)

text \<open>
  Claim C5, as stated, fails: the constructor takes whatever non-empty string is stored
  under \<^verbatim>\<open>theme\<close>. With \<^verbatim>\<open>"blue"\<close> stored at load, after initialization and a scroll
  update the theme held by the controller and written to \<^verbatim>\<open>data-theme\<close> is
  \<^verbatim>\<open>"blue"\<close>, neither \<^verbatim>\<open>"light"\<close> nor \<^verbatim>\<open>"dark"\<close>.
\<close>

theorem theme_unknown_counterexample:
  "\<not> known_theme (currentTheme
        (theme_run \<lparr>data_theme = None, localStorage = [''theme'' \<mapsto> ''blue'']\<rparr> [ScrollTo 600]))
   \<and> data_theme
        (theme_run \<lparr>data_theme = None, localStorage = [''theme'' \<mapsto> ''blue'']\<rparr> [ScrollTo 600])
       = Some ''blue''"
  by (simp add: theme_run_def ThemeManager_constructor_def applyTheme_def or_default_def
      known_theme_def)

text \<open>
  Claim C5, amended. Provided the value stored under \<^verbatim>\<open>theme\<close> at load is absent, empty,
  \<^verbatim>\<open>"light"\<close> or \<^verbatim>\<open>"dark"\<close>: after initialization and after any sequence of toggle
  clicks and scroll updates, the theme held by the controller is \<^verbatim>\<open>"light"\<close> or
  \<^verbatim>\<open>"dark"\<close> and it is the value of the \<^verbatim>\<open>data-theme\<close> attribute. When the key is
  absent at load the theme is \<^verbatim>\<open>"light"\<close>, and a toggle maps \<^verbatim>\<open>"light"\<close> to
  \<^verbatim>\<open>"dark"\<close> and \<^verbatim>\<open>"dark"\<close> to \<^verbatim>\<open>"light"\<close>.
\<close>

theorem theme_known_if_stored_known:
  assumes "localStorage b ''theme'' \<in> {None, Some [], Some ''light'', Some ''dark''}"
  shows "known_theme (currentTheme (theme_run b evs))
       \<and> data_theme (theme_run b evs) = Some (currentTheme (theme_run b evs))
       \<and> (localStorage b ''theme'' = None \<longrightarrow> currentTheme (ThemeManager_constructor b) = ''light'')
       \<and> (currentTheme m = ''light'' \<longrightarrow> currentTheme (toggleTheme m) = ''dark'')
       \<and> (currentTheme m = ''dark'' \<longrightarrow> currentTheme (toggleTheme m) = ''light'')"
proof -
  have "theme_ok (theme_run b evs)"
    unfolding theme_run_def by (rule foldl_theme_ok) (rule constructor_ok [OF assms])
  moreover have "localStorage b ''theme'' = None \<longrightarrow> currentTheme (ThemeManager_constructor b) = ''light''"
    by (simp add: ThemeManager_constructor_def applyTheme_def or_default_def)
  moreover have "currentTheme m = ''light'' \<longrightarrow> currentTheme (toggleTheme m) = ''dark''"
    and "currentTheme m = ''dark'' \<longrightarrow> currentTheme (toggleTheme m) = ''light''"
    by (simp_all add: toggleTheme_def applyTheme_def Let_def)
  ultimately show ?thesis by (simp add: theme_ok_def)
qed

theorem theme_known_if_stored_known_witness:
  "localStorage \<lparr>data_theme = None, localStorage = Map.empty\<rparr> ''theme''
     \<in> {None, Some [], Some ''light'', Some ''dark''}
   \<and> localStorage \<lparr>data_theme = None, localStorage = Map.empty\<rparr> ''theme'' = None
   \<and> currentTheme (ThemeManager_constructor \<lparr>data_theme = None, localStorage = Map.empty\<rparr>) = ''light''
   \<and> currentTheme (toggleTheme (ThemeManager_constructor \<lparr>data_theme = None, localStorage = Map.empty\<rparr>))
       = ''dark''
   \<and> known_theme (currentTheme
        (theme_run \<lparr>data_theme = None, localStorage = Map.empty\<rparr> [ToggleClick, ScrollTo 600, ToggleClick]))
   \<and> data_theme (theme_run \<lparr>data_theme = None, localStorage = Map.empty\<rparr>
        [ToggleClick, ScrollTo 600, ToggleClick]) = Some ''light''"
  using theme_known_if_stored_known
    [of "\<lparr>data_theme = None, localStorage = Map.empty\<rparr>"
        "[ToggleClick, ScrollTo 600, ToggleClick]"
        "ThemeManager_constructor \<lparr>data_theme = None, localStorage = Map.empty\<rparr>"]
  by (simp add: theme_run_def ThemeManager_constructor_def applyTheme_def or_default_def
      toggleTheme_def Let_def)

section \<open>Properties of double-precision arithmetic\<close>

lemma bit_length_eq: "2 ^ j \<le> n \<Longrightarrow> n < 2 ^ Suc j \<Longrightarrow> bit_length n = Suc j"
proof (induction j arbitrary: n)
  case 0
  then have "n = 1" by simp
  then show ?case by (simp add: bit_length.simps [of "Suc 0"] bit_length.simps [of 0])
next
  case (Suc j)
  from Suc.prems have "2 ^ j \<le> n div 2" and "n div 2 < 2 ^ Suc j" and "n \<noteq> 0" by auto
  with Suc.IH [of "n div 2"] show ?case by (simp add: bit_length.simps [of n])
qed

lemma exponent_eq:
  fixes x :: real
  assumes "2 powi k \<le> x" and "x < 2 powi (k + 1)"
  shows "exponent x = k"
proof (cases "0 \<le> k")
  case True
  define j where "j = nat k"
  have k: "k = int j" using True by (simp add: j_def)
  have lo: "(2::real) ^ j \<le> x" using assms(1) by (simp add: k)
  have hi: "x < (2::real) ^ Suc j" using assms(2) by (simp add: k power_int_add)
  have "(1::real) \<le> 2 ^ j" by simp
  with lo have x1: "1 \<le> x" by linarith
  have "of_int (2 ^ j) \<le> x" using lo by simp
  then have a: "2 ^ j \<le> \<lfloor>x\<rfloor>" by (simp only: le_floor_iff)
  have "x < of_int (2 ^ Suc j)" using hi by simp
  then have b: "\<lfloor>x\<rfloor> < 2 ^ Suc j" by (simp only: floor_less_iff)
  from a have "0 \<le> \<lfloor>x\<rfloor>" by (smt (verit) zero_le_power)
  with a b have "2 ^ j \<le> nat \<lfloor>x\<rfloor>" and "nat \<lfloor>x\<rfloor> < 2 ^ Suc j"
    by (simp_all add: le_nat_iff nat_less_iff)
  from bit_length_eq [OF this] x1 show ?thesis by (simp add: exponent_def k)
next
  case False
  define j where "j = nat (- k - 1)"
  have k: "k = - int (Suc j)" using False by (simp add: j_def)
  have k1: "k + 1 = - int j" by (simp add: k)
  have p1: "(2::real) powi k = 1 / 2 ^ Suc j"
    unfolding k power_int_minus power_int_of_nat by (simp add: field_simps)
  have p2: "(2::real) powi (k + 1) = 1 / 2 ^ j"
    unfolding k1 power_int_minus power_int_of_nat by (simp add: field_simps)
  have "(0::real) < 2 powi k" by simp
  with assms(1) have pos: "0 < x" by linarith
  have "1 / (2::real) ^ j \<le> 1" by (simp add: field_simps)
  with assms(2) have x1: "\<not> 1 \<le> x" unfolding p2 by linarith
  from assms(1) pos have yhi: "1 / x \<le> 2 ^ Suc j"
    unfolding p1 by (simp add: field_simps)
  from assms(2) pos have ylo: "2 ^ j < 1 / x"
    unfolding p2 by (simp add: field_simps)
  have "of_int (\<lceil>1 / x\<rceil> - 1) < 1 / x" by linarith
  with yhi have "of_int (\<lceil>1 / x\<rceil> - 1) < (of_int (2 ^ Suc j) :: real)" by simp
  then have b: "\<lceil>1 / x\<rceil> - 1 < 2 ^ Suc j" by (simp only: of_int_less_iff)
  have "of_int (2 ^ j) < 1 / x" using ylo by simp
  then have "2 ^ j < \<lceil>1 / x\<rceil>" by (simp only: less_ceiling_iff)
  then have a: "2 ^ j \<le> \<lceil>1 / x\<rceil> - 1" by simp
  from a have "0 \<le> \<lceil>1 / x\<rceil> - 1" by (smt (verit) zero_le_power)
  with a b have "2 ^ j \<le> nat (\<lceil>1 / x\<rceil> - 1)" and "nat (\<lceil>1 / x\<rceil> - 1) < 2 ^ Suc j"
    by (simp_all add: le_nat_iff nat_less_iff)
  from bit_length_eq [OF this] x1 show ?thesis by (simp add: exponent_def k)
qed

lemma round_half_even_cases:
  "round_half_even y = \<lfloor>y\<rfloor> \<or> round_half_even y = \<lfloor>y\<rfloor> + 1"
  by (simp add: round_half_even_def Let_def)

lemma round_half_even_of_int [simp]: "round_half_even (of_int n) = n"
  by (simp add: round_half_even_def Let_def)

lemma round_half_even_ge: "of_int n \<le> y \<Longrightarrow> n \<le> round_half_even y"
proof -
  assume "of_int n \<le> y"
  then have "n \<le> \<lfloor>y\<rfloor>" by (simp add: le_floor_iff)
  with round_half_even_cases [of y] show ?thesis by auto
qed

lemma round_half_even_le: "y \<le> of_int n \<Longrightarrow> round_half_even y \<le> n"
proof (cases "y = of_int n")
  case True
  then show ?thesis by simp
next
  case False
  assume "y \<le> of_int n"
  with False have "y < of_int n" by simp
  then have "\<lfloor>y\<rfloor> < n" by (simp add: floor_less_iff)
  with round_half_even_cases [of y] show ?thesis by auto
qed

lemma scaled_range:
  fixes z :: real
  assumes "2 powi k \<le> z" and "z < 2 powi (k + 1)"
  shows "2 ^ 52 \<le> z / 2 powi (k - 52)" and "z / 2 powi (k - 52) < 2 ^ 53"
proof -
  have pos: "(0::real) < 2 powi (k - 52)" by simp
  have a: "(2::real) powi k = 2 ^ 52 * 2 powi (k - 52)"
    using power_int_add [of "2::real" 52 "k - 52"] by simp
  have b: "(2::real) powi (k + 1) = 2 ^ 53 * 2 powi (k - 52)"
    using power_int_add [of "2::real" 53 "k - 52"] by (simp add: add.commute)
  from assms(1) show "2 ^ 52 \<le> z / 2 powi (k - 52)"
    unfolding a using pos by (simp add: pos_le_divide_eq)
  from assms(2) show "z / 2 powi (k - 52) < 2 ^ 53"
    unfolding b using pos by (simp add: pos_divide_less_eq)
qed

lemma f64_round_normal:
  assumes "2 powi k \<le> \<bar>x\<bar>" and "\<bar>x\<bar> < 2 powi (k + 1)" and "- 1022 \<le> k" and "k < 1023"
  shows "f64_round x =
     Num (if 0 < x then of_int (round_half_even (\<bar>x\<bar> / 2 powi (k - 52))) * 2 powi (k - 52)
          else - (of_int (round_half_even (\<bar>x\<bar> / 2 powi (k - 52))) * 2 powi (k - 52)))"
proof -
  have "(0::real) < 2 powi k" by simp
  with assms(1) have pos: "0 < \<bar>x\<bar>" by linarith
  then have nz: "x \<noteq> 0" by simp
  have fl: "exponent \<bar>x\<bar> = k" using assms(1,2) by (rule exponent_eq)
  have e: "max (exponent \<bar>x\<bar> - 52) (- 1074) = k - 52" using assms(3) by (simp add: fl)
  let ?m = "round_half_even (\<bar>x\<bar> / 2 powi (k - 52))"
  from scaled_range [OF assms(1,2)]
  have m: "2 ^ 52 \<le> ?m" "?m \<le> 2 ^ 53"
    using round_half_even_ge [of "2 ^ 52" "\<bar>x\<bar> / 2 powi (k - 52)"]
      round_half_even_le [of "\<bar>x\<bar> / 2 powi (k - 52)" "2 ^ 53"]
    by simp_all
  then have m0: "?m \<noteq> 0" by simp
  have "of_int ?m * 2 powi (k - 52) \<le> (2 ^ 53 :: real) * 2 powi (k - 52)"
    using m(2) by (intro mult_right_mono) (simp_all add: of_int_le_iff [of ?m "2 ^ 53", where ?'a = real, simplified])
  also have "\<dots> = 2 powi (k + 1)"
    using power_int_add [of "2::real" 53 "k - 52"] by (simp add: add.commute)
  also have "\<dots> < 2 powi 1024"
    using assms(4) by (intro power_int_strict_increasing) simp_all
  finally have small: "\<not> (2::real) powi 1024 \<le> of_int ?m * 2 powi (k - 52)"
    by (simp only: not_le)
  show ?thesis
    unfolding f64_round_def e Let_def using nz small m0 by simp
qed

lemma lit_0_3: "f64_round (3 / 10) = Num (5404319552844595 / 18014398509481984)"
  by (subst f64_round_normal [of "- 2"]) (simp_all add: power_int_minus round_half_even_def Let_def)

lemma f64_round_int:
  fixes x :: real
  assumes "x \<in> \<int>" and "x \<noteq> 0" and "\<bar>x\<bar> < 2 ^ 53"
  shows "f64_round x = Num x"
proof -
  from assms(1) obtain n :: int where n: "x = of_int n" by (auto elim: Ints_cases)
  define N where "N = nat \<bar>n\<bar>"
  from assms(2) n have N1: "1 \<le> N" by (simp add: N_def)
  from ex_power_ivl1 [of 2 N] N1 obtain k :: nat where k: "2 ^ k \<le> N" "N < 2 ^ (k + 1)"
    by auto
  have absx: "\<bar>x\<bar> = real N" by (simp add: n N_def)
  from assms(3) have "real N < 2 ^ 53" by (simp add: absx)
  then have "N < 2 ^ 53" by (simp add: of_nat_less_numeral_power_cancel_iff)
  with k(1) have "(2::nat) ^ k < 2 ^ 53" by (rule le_less_trans)
  then have "k < 53" by (simp only: power_strict_increasing_iff one_less_numeral_iff semiring_norm)
  then have k52: "k \<le> 52" by simp
  have lo: "2 powi (int k) \<le> \<bar>x\<bar>"
    using k(1) by (simp add: absx)
  have hi: "\<bar>x\<bar> < 2 powi (int k + 1)"
  proof -
    have "real N < 2 ^ (k + 1)" using k(2) by (metis of_nat_less_iff of_nat_numeral of_nat_power)
    moreover have "(2::real) powi (int k + 1) = 2 ^ (k + 1)"
      by (simp add: power_int_add)
    ultimately show ?thesis by (simp add: absx)
  qed
  have sc: "(2::real) powi (int k - 52) = 1 / 2 ^ (52 - k)"
    using k52 by (simp add: power_int_def nat_diff_distrib' power_inverse field_simps)
  have z: "\<bar>x\<bar> / 2 powi (int k - 52) = of_int (int N * 2 ^ (52 - k))"
    by (simp add: sc absx)
  have y: "of_int (round_half_even (\<bar>x\<bar> / 2 powi (int k - 52))) * 2 powi (int k - 52) = \<bar>x\<bar>"
    unfolding z round_half_even_of_int by (simp add: sc absx)
  from f64_round_normal [OF lo hi] k52 show ?thesis
    unfolding y by (auto simp add: abs_if split: if_splits)
qed

lemma f64_ge_Num [simp]: "f64_ge (Num a) (Num b) = (b \<le> a)"
  by (auto simp add: f64_ge_def f64_lt_def)

lemma binade:
  fixes x :: real
  assumes "0 < x"
  shows "2 powi \<lfloor>log 2 x\<rfloor> \<le> x \<and> x < 2 powi (\<lfloor>log 2 x\<rfloor> + 1)"
proof -
  have "2 powr (real_of_int \<lfloor>log 2 x\<rfloor> + 1) = 2 powi (\<lfloor>log 2 x\<rfloor> + 1)"
    using powr_real_of_int' [of 2 "\<lfloor>log 2 x\<rfloor> + 1"] by simp
  moreover have "2 powr (real_of_int \<lfloor>log 2 x\<rfloor>) = 2 powi \<lfloor>log 2 x\<rfloor>"
    using powr_real_of_int' [of 2 "\<lfloor>log 2 x\<rfloor>"] by simp
  ultimately show ?thesis
    using assms floor_log_eq_powr_iff [of x 2 "\<lfloor>log 2 x\<rfloor>"] by simp
qed

lemma f64_round_bounds:
  fixes x :: real
  assumes "2 powi k \<le> x" and "x < 2 powi (k + 1)" and "- 1022 \<le> k" and "k < 1023"
  shows "\<exists>y. f64_round x = Num y \<and> 2 powi k \<le> y \<and> y \<le> 2 powi (k + 1)"
proof -
  have "(0::real) < 2 powi k" by simp
  with assms(1) have pos: "0 < x" by linarith
  then have ax: "\<bar>x\<bar> = x" by simp
  let ?m = "round_half_even (x / 2 powi (k - 52))"
  from scaled_range [OF assms(1,2)]
  have m: "2 ^ 52 \<le> ?m" "?m \<le> 2 ^ 53"
    using round_half_even_ge [of "2 ^ 52" "x / 2 powi (k - 52)"]
      round_half_even_le [of "x / 2 powi (k - 52)" "2 ^ 53"]
    by simp_all
  have a: "(2::real) powi k = 2 ^ 52 * 2 powi (k - 52)"
    using power_int_add [of "2::real" 52 "k - 52"] by simp
  have b: "(2::real) powi (k + 1) = 2 ^ 53 * 2 powi (k - 52)"
    using power_int_add [of "2::real" 53 "k - 52"] by (simp add: add.commute)
  from m(1) have "(2 ^ 52 :: real) \<le> of_int ?m"
    using of_int_le_iff [of "2 ^ 52" ?m, where ?'a = real] by simp
  then have lo: "2 powi k \<le> real_of_int ?m * 2 powi (k - 52)"
    unfolding a by (intro mult_right_mono) simp_all
  from m(2) have "of_int ?m \<le> (2 ^ 53 :: real)"
    using of_int_le_iff [of ?m "2 ^ 53", where ?'a = real] by simp
  then have hi: "real_of_int ?m * 2 powi (k - 52) \<le> 2 powi (k + 1)"
    unfolding b by (intro mult_right_mono) simp_all
  from assms(1,2) have "2 powi k \<le> \<bar>x\<bar>" "\<bar>x\<bar> < 2 powi (k + 1)" by (simp_all add: ax)
  from f64_round_normal [OF this assms(3,4)] pos lo hi show ?thesis
    by (simp add: ax)
qed

lemma round_half_even_ge_odd:
  assumes "odd M"
  shows "M \<le> round_half_even z \<longleftrightarrow> of_int M - 1 / 2 < z"
proof -
  define n where "n = \<lfloor>z\<rfloor>"
  have fl: "of_int n \<le> z" "z < of_int n + 1" unfolding n_def by linarith+
  show ?thesis
  proof (cases "M \<le> n")
    case True
    then have "of_int M \<le> (of_int n :: real)" by simp
    with fl have "of_int M - 1 / 2 < z" by linarith
    moreover from True round_half_even_cases [of z] have "M \<le> round_half_even z"
      by (auto simp add: n_def)
    ultimately show ?thesis by simp
  next
    case False
    show ?thesis
    proof (cases "M = n + 1")
      case True
      with assms have ev: "even n" by simp
      have M: "(of_int M :: real) = of_int n + 1" using True by simp
      show ?thesis
        unfolding round_half_even_def Let_def n_def [symmetric] M using ev True by auto
    next
      case F2: False
      with False have "n + 1 < M" by simp
      then have "n + 2 \<le> M" by simp
      then have "(of_int n :: real) + 2 \<le> of_int M" by (metis of_int_le_iff of_int_add of_int_numeral)
      with fl have "\<not> of_int M - 1 / 2 < z" by linarith
      moreover from \<open>n + 1 < M\<close> round_half_even_cases [of z] have "\<not> M \<le> round_half_even z"
        by (auto simp add: n_def)
      ultimately show ?thesis by simp
    qed
  qed
qed

lemma f64_round_negative:
  fixes x c :: real
  assumes "x < 0" and "0 < c"
  shows "\<not> f64_ge (f64_round x) (Num c)"
proof -
  let ?e = "max (exponent \<bar>x\<bar> - 52) (- 1074)"
  have "0 \<le> \<bar>x\<bar> / 2 powi ?e" by simp
  then have "0 \<le> round_half_even (\<bar>x\<bar> / 2 powi ?e)"
    using round_half_even_ge [of 0 "\<bar>x\<bar> / 2 powi ?e"] by simp
  then have "0 \<le> real_of_int (round_half_even (\<bar>x\<bar> / 2 powi ?e)) * 2 powi ?e" by simp
  with assms show ?thesis
    unfolding f64_round_def Let_def by (auto simp add: f64_ge_def f64_lt_def)
qed

lemma f64_round_ge_0_3:
  fixes x :: real
  assumes "2 powi (- 1022) \<le> x" and "x < 2 powi 1023"
  shows "f64_ge (f64_round x) (f64_round (3 / 10))
     \<longleftrightarrow> 10808639105689189 / 36028797018963968 < x"
proof -
  have "(0::real) < 2 powi (- 1022)" by simp
  with assms(1) have pos: "0 < x" by linarith
  define k where "k = \<lfloor>log 2 x\<rfloor>"
  from binade [OF pos] have k: "2 powi k \<le> x" "x < 2 powi (k + 1)" by (simp_all add: k_def)
  have klo: "- 1022 \<le> k"
  proof (rule ccontr)
    assume "\<not> - 1022 \<le> k"
    then have "k + 1 \<le> - 1022" by simp
    then have "(2::real) powi (k + 1) \<le> 2 powi (- 1022)" by (intro power_int_increasing) simp_all
    with k(2) assms(1) show False by linarith
  qed
  have khi: "k < 1023"
  proof (rule ccontr)
    assume "\<not> k < 1023"
    then have "1023 \<le> k" by simp
    then have "(2::real) powi 1023 \<le> 2 powi k" by (intro power_int_increasing) simp_all
    with k(1) assms(2) show False by linarith
  qed
  from f64_round_bounds [OF k klo khi] obtain y
    where y: "f64_round x = Num y" "2 powi k \<le> y" "y \<le> 2 powi (k + 1)" by blast
  consider "- 1 \<le> k" | "k \<le> - 3" | "k = - 2" by linarith
  then show ?thesis
  proof cases
    case 1
    then have "(2::real) powi (- 1) \<le> 2 powi k" by (intro power_int_increasing) simp_all
    then have "1 / 2 \<le> (2::real) powi k" by (simp add: power_int_minus)
    with y(2) k(1) show ?thesis by (simp add: y(1) lit_0_3)
  next
    case 2
    then have "k + 1 \<le> - 2" by simp
    then have "(2::real) powi (k + 1) \<le> 2 powi (- 2)" by (intro power_int_increasing) simp_all
    then have "(2::real) powi (k + 1) \<le> 1 / 4" by (simp add: power_int_minus)
    with y(3) k(2) show ?thesis by (simp add: y(1) lit_0_3)
  next
    case 3
    have ax: "\<bar>x\<bar> = x" using pos by simp
    from k have "2 powi (- 2) \<le> \<bar>x\<bar>" "\<bar>x\<bar> < 2 powi (- 2 + 1)" by (simp_all add: ax 3)
    from f64_round_normal [OF this] pos
    have r: "f64_round x = Num (of_int (round_half_even (x / 2 powi (- 54))) * 2 powi (- 54))"
      by (simp add: ax)
    have sc: "(2::real) powi (- 54) = 1 / 18014398509481984" by (simp add: power_int_minus)
    have "f64_ge (f64_round x) (f64_round (3 / 10))
        \<longleftrightarrow> (5404319552844595::real) \<le> of_int (round_half_even (x * 18014398509481984))"
      by (simp add: r lit_0_3 sc field_simps)
    also have "\<dots> \<longleftrightarrow> (5404319552844595::int) \<le> round_half_even (x * 18014398509481984)"
      using of_int_le_iff [of 5404319552844595 "round_half_even (x * 18014398509481984)", where ?'a = real]
      by simp
    also have "\<dots> \<longleftrightarrow> of_int 5404319552844595 - 1 / 2 < x * 18014398509481984"
      by (rule round_half_even_ge_odd) simp
    also have "\<dots> \<longleftrightarrow> 10808639105689189 / 36028797018963968 < x"
      by (simp add: field_simps)
    finally show ?thesis .
  qed
qed

lemma Math_min_Num: "Math_min (Num a) (Num b) = Num (min a b)"
  by (auto simp add: Math_min_def f64_lt_def)

lemma Math_max_Num: "Math_max (Num a) (Num b) = Num (max a b)"
  by (auto simp add: Math_max_def f64_lt_def)

lemma f64_sub_int:
  fixes a b :: real
  assumes "a \<in> \<int>" and "b \<in> \<int>" and "\<bar>a - b\<bar> < 2 ^ 53"
  shows "f64_sub (Num a) (Num b) = Num (a - b)"
proof (cases "a - b = 0")
  case True
  then show ?thesis by (simp add: f64_sub_def signed_zero_def)
next
  case False
  from assms(1,2) have "a - b \<in> \<int>" by simp
  from f64_round_int [OF this False assms(3)] False show ?thesis
    by (simp add: f64_sub_def)
qed

lemma ratio_threshold:
  fixes v e :: int
  assumes "0 < v" and "0 < e" and "e \<le> 2 ^ 51"
  shows "10808639105689189 / 36028797018963968 < (of_int v :: real) / of_int e
     \<longleftrightarrow> 3 * e \<le> 10 * v"
proof
  assume "3 * e \<le> 10 * v"
  then have "(of_int (3 * e) :: real) \<le> of_int (10 * v)" by (simp only: of_int_le_iff)
  then have "3 * (of_int e :: real) \<le> 10 * of_int v" by simp
  with assms(2) have "(3 / 10 :: real) \<le> of_int v / of_int e" by (simp add: field_simps)
  then show "10808639105689189 / 36028797018963968 < (of_int v :: real) / of_int e" by simp
next
  assume lt: "10808639105689189 / 36028797018963968 < (of_int v :: real) / of_int e"
  show "3 * e \<le> 10 * v"
  proof (rule ccontr)
    assume "\<not> 3 * e \<le> 10 * v"
    then have "10 * v + 1 \<le> 3 * e" by simp
    then have "(of_int (10 * v + 1) :: real) \<le> of_int (3 * e)" by (simp only: of_int_le_iff)
    then have a: "10 * (of_int v :: real) + 1 \<le> 3 * of_int e" by simp
    from assms(3) have "(of_int e :: real) \<le> of_int (2 ^ 51)" by (simp only: of_int_le_iff)
    then have b: "(of_int e :: real) \<le> 2251799813685248" by simp
    from lt assms(2) have "10808639105689189 * (of_int e :: real) < 36028797018963968 * of_int v"
      by (simp add: field_simps)
    with a b show False by linarith
  qed
qed

section \<open>Properties of the navigation\<close>

lemma classList_remove_not_mem: "t \<notin> set (classList_remove t cl)"
  by (simp add: classList_remove_def)

lemma classList_add_mem: "t \<in> set (classList_add t cl)"
  by (simp add: classList_add_def)

lemma updateActiveNavLink_active:
  "list_all (\<lambda>l. is_active l = (href l = Some (''#'' @ a))) (updateActiveNavLink a links)"
  by (induction links)
     (simp_all add: updateActiveNavLink_def is_active_def Let_def classList_remove_not_mem
        classList_add_mem)

lemma updateActiveNavLink_href: "map href (updateActiveNavLink a links) = map href links"
  by (induction links) (simp_all add: updateActiveNavLink_def Let_def)

lemma link_hrefs_cong: "map href ls = map href ls' \<Longrightarrow> link_hrefs ls = link_hrefs ls'"
proof (induction ls arbitrary: ls')
  case Nil
  then show ?case by simp
next
  case (Cons l ls)
  then obtain k ks where "ls' = k # ks" by (cases ls') auto
  with Cons show ?case by (simp split: option.splits)
qed

lemma updateActiveSection_active:
  "activeSection n = None \<or> nav_inv n \<Longrightarrow>
   activeSection (updateActiveSection h secs n) = Some (current_section h secs)
   \<and> nav_inv (updateActiveSection h secs n)"
  using updateActiveNavLink_active [of "current_section h secs" "navLinks n"]
  by (auto simp add: updateActiveSection_def Let_def nav_inv_def split: option.splits)

lemma updateActiveSection_href:
  "map href (navLinks (updateActiveSection h secs n)) = map href (navLinks n)"
  by (simp add: updateActiveSection_def Let_def updateActiveNavLink_href)

lemma nav_constructor_inv: "nav_inv (Navigation_constructor links g)"
  unfolding Navigation_constructor_def
  using updateActiveSection_active [of "\<lparr>activeSection = None, navLinks = links\<rparr>"] by simp

lemma foldl_update_inv:
  "nav_inv n \<Longrightarrow> nav_inv (foldl (\<lambda>n g. updateActiveSection (fst g) (snd g) n) n gs)"
  by (induction gs arbitrary: n) (simp_all add: updateActiveSection_active)

lemma foldl_update_href:
  "map href (navLinks (foldl (\<lambda>n g. updateActiveSection (fst g) (snd g) n) n gs))
   = map href (navLinks n)"
  by (induction gs arbitrary: n) (simp_all add: updateActiveSection_href)

lemma nav_run_inv: "nav_inv (nav_run links g0 gs)"
  by (simp add: nav_run_def foldl_update_inv nav_constructor_inv)

lemma nav_run_href: "map href (navLinks (nav_run links g0 gs)) = map href links"
  by (simp add: nav_run_def foldl_update_href Navigation_constructor_def updateActiveSection_href)

lemma filter_href_le_1:
  "distinct (link_hrefs ls) \<Longrightarrow> length (filter (\<lambda>l. href l = Some h) ls) \<le> 1"
proof (induction ls)
  case Nil
  then show ?case by simp
next
  case (Cons l ls)
  have mem: "h \<notin> set (link_hrefs ks) \<Longrightarrow> filter (\<lambda>l. href l = Some h) ks = []" for ks
    by (induction ks) (auto split: option.splits)
  from Cons show ?case
    by (cases "href l") (auto simp add: mem)
qed

lemma nav_inv_filter:
  "nav_inv n \<Longrightarrow>
   \<exists>a. activeSection n = Some a
     \<and> filter is_active (navLinks n) = filter (\<lambda>l. href l = Some (''#'' @ a)) (navLinks n)"
  by (auto simp add: nav_inv_def list_all_iff split: option.splits intro!: filter_cong)

lemma current_section_last:
  "qualifying h secs \<noteq> [] \<Longrightarrow> current_section h secs = sec_id (last (qualifying h secs))"
  by (induction secs rule: rev_induct) (auto simp add: current_section_def qualifying_def)

text \<open>
  On whole-pixel geometry the rounding of the script's test is harmless: the test with
  \<^verbatim>\<open>0.3\<close> holds exactly when at least 30% of the height of the section is inside
  the viewport.
\<close>

lemma isElementInViewport_integer:
  fixes h t b :: real
  assumes "h \<in> \<int>" and "t \<in> \<int>" and "b \<in> \<int>" and "t < b"
    and "\<bar>h\<bar> \<le> 2 ^ 50" and "\<bar>t\<bar> \<le> 2 ^ 50" and "\<bar>b\<bar> \<le> 2 ^ 50"
    and "rect_top el = Num t" and "rect_bottom el = Num b"
  shows "isElementInViewport (Num h) (Some el) (f64_round (3 / 10))
     \<longleftrightarrow> spec_30_percent_visible h t b"
proof -
  define v where "v = min b h - max t 0"
  define e where "e = b - t"
  have vI: "v \<in> \<int>" and eI: "e \<in> \<int>"
    using assms(1-3) by (auto simp add: v_def e_def min_def max_def)
  have vb: "\<bar>v\<bar> \<le> 2 ^ 51" and eb: "\<bar>e\<bar> \<le> 2 ^ 51" and epos: "0 < e"
    using assms(4-7) by (auto simp add: v_def e_def min_def max_def)
  have eh: "f64_sub (Num b) (Num t) = Num e"
    unfolding e_def using assms(2,3) eb by (intro f64_sub_int) (simp_all add: e_def)
  have "min b h \<in> \<int>" and "max t 0 \<in> \<int>"
    using assms(1-3) by (auto simp add: min_def max_def)
  then have vh: "f64_sub (Num (min b h)) (Num (max t 0)) = Num v"
    unfolding v_def using vb by (intro f64_sub_int) (simp_all add: v_def)
  have test: "isElementInViewport (Num h) (Some el) (f64_round (3 / 10))
      \<longleftrightarrow> f64_ge (f64_div (Num v) (Num e)) (f64_round (3 / 10))"
    by (simp add: isElementInViewport_def assms(8,9) Math_min_Num Math_max_Num eh vh)
  have spec: "spec_30_percent_visible h t b \<longleftrightarrow> 3 / 10 * e \<le> max 0 v"
    by (simp add: spec_30_percent_visible_def visible_height_def v_def e_def)
  consider "v = 0" | "v < 0" | "0 < v" by linarith
  then show ?thesis
  proof cases
    case 1
    with epos show ?thesis
      unfolding test spec by (simp add: f64_div_def signed_zero_def lit_0_3)
  next
    case 2
    with epos have "v / e < 0" by (simp add: divide_neg_pos)
    from f64_round_negative [OF this, of "5404319552844595 / 18014398509481984"]
    have "\<not> f64_ge (f64_round (v / e)) (f64_round (3 / 10))" by (simp add: lit_0_3)
    with 2 epos show ?thesis
      unfolding test spec by (simp add: f64_div_def)
  next
    case 3
    from vI eI obtain vi ei :: int where vi: "v = of_int vi" and ei: "e = of_int ei"
      by (auto elim!: Ints_cases)
    from 3 epos have ipos: "0 < vi" "0 < ei" by (simp_all add: vi ei)
    from eb epos have "of_int ei \<le> (of_int (2 ^ 51) :: real)" by (simp add: ei)
    then have eib: "ei \<le> 2 ^ 51" by (simp only: of_int_le_iff)
    from vb 3 have "of_int vi \<le> (of_int (2 ^ 51) :: real)" by (simp add: vi)
    then have vib: "vi \<le> 2 ^ 51" by (simp only: of_int_le_iff)
    from ipos have v1: "1 \<le> v" and e1: "1 \<le> e" by (simp_all add: vi ei)
    have "1 / 2 ^ 51 \<le> 1 / e" using e1 eb epos by (simp add: field_simps)
    also have "\<dots> \<le> v / e" using v1 epos by (simp add: field_simps)
    finally have lo1: "1 / 2 ^ 51 \<le> v / e" .
    have "(2::real) powi (- 1022) \<le> 2 powi (- 51)" by (intro power_int_increasing) simp_all
    also have "\<dots> = 1 / 2 ^ 51" by (simp add: power_int_minus)
    finally have lo: "2 powi (- 1022) \<le> v / e" using lo1 by linarith
    have "v / e \<le> v" using e1 3 by (simp add: field_simps)
    also have "\<dots> \<le> 2 ^ 51" using vb by simp
    also have "\<dots> < (2::real) powi 1023"
      using power_int_strict_increasing [of 51 1023 "2::real"] by simp
    finally have hi: "v / e < 2 powi 1023" .
    have "f64_ge (f64_div (Num v) (Num e)) (f64_round (3 / 10))
        \<longleftrightarrow> f64_ge (f64_round (v / e)) (f64_round (3 / 10))"
      using 3 epos by (simp add: f64_div_def)
    also have "\<dots> \<longleftrightarrow> 10808639105689189 / 36028797018963968 < v / e"
      by (rule f64_round_ge_0_3 [OF lo hi])
    also have "\<dots> \<longleftrightarrow> 3 * ei \<le> 10 * vi"
      unfolding vi ei by (rule ratio_threshold [OF ipos eib])
    also have "\<dots> \<longleftrightarrow> (of_int (3 * ei) :: real) \<le> of_int (10 * vi)"
      by (simp only: of_int_le_iff)
    also have "\<dots> \<longleftrightarrow> 3 / 10 * e \<le> max 0 v"
      using 3 by (simp add: vi ei mult.commute)
    finally show ?thesis unfolding test spec .
  qed
qed

lemma isElementInViewport_integer_rect:
  fixes h t b :: real
  assumes "h \<in> \<int>" and "t \<in> \<int>" and "b \<in> \<int>" and "t < b"
    and "\<bar>h\<bar> \<le> 2 ^ 50" and "\<bar>t\<bar> \<le> 2 ^ 50" and "\<bar>b\<bar> \<le> 2 ^ 50"
  shows "isElementInViewport (Num h) (Some \<lparr>sec_id = i, rect_top = Num t, rect_bottom = Num b\<rparr>)
           (f64_round (3 / 10))
     = spec_30_percent_visible h t b"
  using isElementInViewport_integer [OF assms, of "\<lparr>sec_id = i, rect_top = Num t, rect_bottom = Num b\<rparr>"]
  by simp

lemma integer_pixel_Num:
  assumes "integer_pixel a"
  shows "\<exists>x. a = Num x \<and> x \<in> \<int> \<and> \<bar>x\<bar> \<le> 2 ^ 50"
proof (cases a)
  case (Num x)
  with assms have fl: "of_int \<lfloor>x\<rfloor> = x" and bd: "\<bar>x\<bar> \<le> 2 ^ 50"
    by (simp_all add: integer_pixel_def)
  from fl have "x \<in> \<int>" by (metis Ints_of_int)
  with Num bd show ?thesis by simp
qed (insert assms, simp_all add: integer_pixel_def)

lemma qualifying_integer:
  assumes "integer_geometry h secs"
  shows "qualifying h secs = spec_qualifying h secs"
proof -
  from assms obtain hr where h: "h = Num hr" "hr \<in> \<int>" "\<bar>hr\<bar> \<le> 2 ^ 50"
    using integer_pixel_Num [of h] by (auto simp add: integer_geometry_def)
  have "isElementInViewport h (Some s) (f64_round (3 / 10))
      = spec_30_percent_visible (val h) (val (rect_top s)) (val (rect_bottom s))"
    if "s \<in> set secs" for s
  proof -
    from assms that have s: "integer_pixel (rect_top s)" "integer_pixel (rect_bottom s)"
        "val (rect_top s) < val (rect_bottom s)"
      by (auto simp add: integer_geometry_def list_all_iff)
    from s(1) obtain t where t: "rect_top s = Num t" "t \<in> \<int>" "\<bar>t\<bar> \<le> 2 ^ 50"
      using integer_pixel_Num by blast
    from s(2) obtain b where b: "rect_bottom s = Num b" "b \<in> \<int>" "\<bar>b\<bar> \<le> 2 ^ 50"
      using integer_pixel_Num by blast
    from s(3) have "t < b" by (simp add: t b)
    from isElementInViewport_integer [OF h(2) t(2) b(2) this h(3) t(3) b(3) t(1) b(1)]
    show ?thesis by (simp add: h(1) t(1) b(1))
  qed
  then show ?thesis
    unfolding qualifying_def spec_qualifying_def by (intro filter_cong) simp_all
qed

lemmas nav_eval = nav_run_def Navigation_constructor_def updateActiveSection_def
  current_section_def qualifying_def isElementInViewport_integer_rect
  spec_30_percent_visible_def visible_height_def updateActiveNavLink_def
  classList_add_def classList_remove_def is_active_def Let_def

text \<open>
  Claim C6, as stated, fails: \<^verbatim>\<open>updateActiveNavLink\<close> adds \<^verbatim>\<open>active\<close> to every link
  whose \<^verbatim>\<open>href\<close> is \<^verbatim>\<open>#\<close> followed by the id of the section. With two links to
  \<^verbatim>\<open>#home\<close> and the section \<^verbatim>\<open>home\<close> filling the window on load, both of them carry
  \<^verbatim>\<open>active\<close> after the update on load.
\<close>

theorem duplicate_href_counterexample:
  "map is_active (navLinks (nav_run
     [\<lparr>href = Some ''#home'', classes = [''nav-link'']\<rparr>,
      \<lparr>href = Some ''#home'', classes = [''nav-link'']\<rparr>,
      \<lparr>href = Some ''#about'', classes = [''nav-link'']\<rparr>]
     (Num 800, [\<lparr>sec_id = ''home'', rect_top = Num 0, rect_bottom = Num 800\<rparr>,
                \<lparr>sec_id = ''about'', rect_top = Num 800, rect_bottom = Num 1600\<rparr>])
     []))
     = [True, True, False]
   \<and> length (filter is_active (navLinks (nav_run
     [\<lparr>href = Some ''#home'', classes = [''nav-link'']\<rparr>,
      \<lparr>href = Some ''#home'', classes = [''nav-link'']\<rparr>,
      \<lparr>href = Some ''#about'', classes = [''nav-link'']\<rparr>]
     (Num 800, [\<lparr>sec_id = ''home'', rect_top = Num 0, rect_bottom = Num 800\<rparr>,
                \<lparr>sec_id = ''about'', rect_top = Num 800, rect_bottom = Num 1600\<rparr>])
     []))) = 2"
  by (simp add: nav_eval)

text \<open>
  Claim C6, amended. Provided the navigation links of the markup have pairwise distinct
  \<^verbatim>\<open>href\<close> attributes (links without one aside): after the update on load and after
  every later scroll recomputation, whatever the geometry and whatever classes the markup
  gave the links, at most one navigation link carries the class \<^verbatim>\<open>active\<close>.
\<close>

theorem at_most_one_active_link:
  assumes "distinct (link_hrefs links)"
  shows "length (filter is_active (navLinks (nav_run links g0 gs))) \<le> 1"
proof -
  let ?n = "nav_run links g0 gs"
  obtain a where a:
    "filter is_active (navLinks ?n) = filter (\<lambda>l. href l = Some (''#'' @ a)) (navLinks ?n)"
    using nav_inv_filter [OF nav_run_inv] by blast
  have "link_hrefs (navLinks ?n) = link_hrefs links"
    by (rule link_hrefs_cong) (rule nav_run_href)
  with assms have "distinct (link_hrefs (navLinks ?n))" by simp
  then show ?thesis unfolding a by (rule filter_href_le_1)
qed

theorem at_most_one_active_link_witness:
  "distinct (link_hrefs
     [\<lparr>href = Some ''#home'', classes = [''nav-link'', ''active'']\<rparr>,
      \<lparr>href = Some ''#about'', classes = [''nav-link'', ''active'']\<rparr>,
      \<lparr>href = None, classes = [''nav-link'']\<rparr>])
   \<and> map is_active (navLinks (nav_run
     [\<lparr>href = Some ''#home'', classes = [''nav-link'', ''active'']\<rparr>,
      \<lparr>href = Some ''#about'', classes = [''nav-link'', ''active'']\<rparr>,
      \<lparr>href = None, classes = [''nav-link'']\<rparr>]
     (Num 800, [\<lparr>sec_id = ''home'', rect_top = Num 0, rect_bottom = Num 800\<rparr>,
                \<lparr>sec_id = ''about'', rect_top = Num 800, rect_bottom = Num 1600\<rparr>])
     [(Num 800, [\<lparr>sec_id = ''home'', rect_top = Num (- 700), rect_bottom = Num 100\<rparr>,
                 \<lparr>sec_id = ''about'', rect_top = Num 100, rect_bottom = Num 900\<rparr>])]))
     = [False, True, False]
   \<and> length (filter is_active (navLinks (nav_run
     [\<lparr>href = Some ''#home'', classes = [''nav-link'', ''active'']\<rparr>,
      \<lparr>href = Some ''#about'', classes = [''nav-link'', ''active'']\<rparr>,
      \<lparr>href = None, classes = [''nav-link'']\<rparr>]
     (Num 800, [\<lparr>sec_id = ''home'', rect_top = Num 0, rect_bottom = Num 800\<rparr>,
                \<lparr>sec_id = ''about'', rect_top = Num 800, rect_bottom = Num 1600\<rparr>])
     [(Num 800, [\<lparr>sec_id = ''home'', rect_top = Num (- 700), rect_bottom = Num 100\<rparr>,
                 \<lparr>sec_id = ''about'', rect_top = Num 100, rect_bottom = Num 900\<rparr>])]))) \<le> 1"
  using at_most_one_active_link
    [of "[\<lparr>href = Some ''#home'', classes = [''nav-link'', ''active'']\<rparr>,
          \<lparr>href = Some ''#about'', classes = [''nav-link'', ''active'']\<rparr>,
          \<lparr>href = None, classes = [''nav-link'']\<rparr>]"
        "(Num 800, [\<lparr>sec_id = ''home'', rect_top = Num 0, rect_bottom = Num 800\<rparr>,
                    \<lparr>sec_id = ''about'', rect_top = Num 800, rect_bottom = Num 1600\<rparr>])"
        "[(Num 800, [\<lparr>sec_id = ''home'', rect_top = Num (- 700), rect_bottom = Num 100\<rparr>,
                     \<lparr>sec_id = ''about'', rect_top = Num 100, rect_bottom = Num 900\<rparr>])]"]
  by (simp add: nav_eval)

text \<open>
  Claim C7, as stated, fails, by the rounding of the script's arithmetic. In a window 800
  pixels high let the section \<^verbatim>\<open>about\<close> go from \<open>- 300\<close> to 185.2 and the section
  \<^verbatim>\<open>projects\<close> from 185.2 to 2234.5333333333333, the two doubles written as fractions
  below. Of the height of \<^verbatim>\<open>projects\<close> a little more than 30% is inside the viewport, so
  both sections have at least 30% of their height visible, \<^verbatim>\<open>projects\<close> being the last.
  The script computes the height as 2049.3333333333335, the visible height as 614.8 and
  their quotient as 0.29999999999999993, less than the double \<^verbatim>\<open>0.3\<close>: only \<^verbatim>\<open>about\<close> passes
  its test, and after this scroll recomputation \<^verbatim>\<open>about\<close> is the active section and
  its link the one marked active.
\<close>

theorem rounded_quotient_counterexample:
  "is_double (Num (3258072855425843 / 17592186044416))
   \<and> is_double (Num (4913790765306129 / 2199023255552))
   \<and> f64_sub (Num (4913790765306129 / 2199023255552))
        (Num (3258072855425843 / 17592186044416))
       = Num (4506531658377899 / 2199023255552)
   \<and> f64_sub (Math_min (Num (4913790765306129 / 2199023255552)) (Num 800))
        (Math_max (Num (3258072855425843 / 17592186044416)) (Num 0))
       = Num (2703918995026739 / 4398046511104)
   \<and> f64_div (Num (2703918995026739 / 4398046511104))
        (Num (4506531658377899 / 2199023255552))
       = Num (2702159776422297 / 9007199254740992)
   \<and> \<not> f64_ge (Num (2702159776422297 / 9007199254740992)) (f64_round (3 / 10))
   \<and> map sec_id (spec_qualifying (Num 800)
        [\<lparr>sec_id = ''about'', rect_top = Num (- 300),
           rect_bottom = Num (3258072855425843 / 17592186044416)\<rparr>,
         \<lparr>sec_id = ''projects'', rect_top = Num (3258072855425843 / 17592186044416),
           rect_bottom = Num (4913790765306129 / 2199023255552)\<rparr>])
       = [''about'', ''projects'']
   \<and> map sec_id (qualifying (Num 800)
        [\<lparr>sec_id = ''about'', rect_top = Num (- 300),
           rect_bottom = Num (3258072855425843 / 17592186044416)\<rparr>,
         \<lparr>sec_id = ''projects'', rect_top = Num (3258072855425843 / 17592186044416),
           rect_bottom = Num (4913790765306129 / 2199023255552)\<rparr>])
       = [''about'']
   \<and> activeSection (nav_run
        [\<lparr>href = Some ''#about'', classes = [''nav-link'']\<rparr>,
         \<lparr>href = Some ''#projects'', classes = [''nav-link'']\<rparr>]
        (Num 800, [\<lparr>sec_id = ''about'', rect_top = Num 800, rect_bottom = Num 1285\<rparr>,
                   \<lparr>sec_id = ''projects'', rect_top = Num 1285, rect_bottom = Num 3334\<rparr>])
        [(Num 800,
          [\<lparr>sec_id = ''about'', rect_top = Num (- 300),
             rect_bottom = Num (3258072855425843 / 17592186044416)\<rparr>,
           \<lparr>sec_id = ''projects'', rect_top = Num (3258072855425843 / 17592186044416),
             rect_bottom = Num (4913790765306129 / 2199023255552)\<rparr>])])
       = Some ''about''
   \<and> map is_active (navLinks (nav_run
        [\<lparr>href = Some ''#about'', classes = [''nav-link'']\<rparr>,
         \<lparr>href = Some ''#projects'', classes = [''nav-link'']\<rparr>]
        (Num 800, [\<lparr>sec_id = ''about'', rect_top = Num 800, rect_bottom = Num 1285\<rparr>,
                   \<lparr>sec_id = ''projects'', rect_top = Num 1285, rect_bottom = Num 3334\<rparr>])
        [(Num 800,
          [\<lparr>sec_id = ''about'', rect_top = Num (- 300),
             rect_bottom = Num (3258072855425843 / 17592186044416)\<rparr>,
           \<lparr>sec_id = ''projects'', rect_top = Num (3258072855425843 / 17592186044416),
             rect_bottom = Num (4913790765306129 / 2199023255552)\<rparr>])]))
       = [True, False]"
proof -
  have d1: "f64_round (3258072855425843 / 17592186044416) = Num (3258072855425843 / 17592186044416)"
    by (subst f64_round_normal [of 7])
       (simp_all add: power_int_minus round_half_even_def Let_def)
  have d2: "f64_round (4913790765306129 / 2199023255552) = Num (4913790765306129 / 2199023255552)"
    by (subst f64_round_normal [of 11])
       (simp_all add: power_int_minus round_half_even_def Let_def)
  have s1: "f64_sub (Num (4913790765306129 / 2199023255552))
                (Num (3258072855425843 / 17592186044416))
            = Num (4506531658377899 / 2199023255552)"
    unfolding f64_sub_def
    by (simp, subst f64_round_normal [of 11])
       (simp_all add: power_int_minus round_half_even_def Let_def)
  have s2: "f64_sub (Num 800) (Num (3258072855425843 / 17592186044416))
            = Num (2703918995026739 / 4398046511104)"
    unfolding f64_sub_def
    by (simp, subst f64_round_normal [of 9])
       (simp_all add: power_int_minus round_half_even_def Let_def)
  have s3: "f64_div (Num (2703918995026739 / 4398046511104))
                (Num (4506531658377899 / 2199023255552))
            = Num (2702159776422297 / 9007199254740992)"
    unfolding f64_div_def
    by (simp, subst f64_round_normal [of "- 2"])
       (simp_all add: power_int_minus round_half_even_def Let_def)
  have s4: "f64_sub (Num (3258072855425843 / 17592186044416)) (Num (- 300))
            = Num (8535728668750643 / 17592186044416)"
    unfolding f64_sub_def
    by (simp, subst f64_round_normal [of 8])
       (simp_all add: power_int_minus round_half_even_def Let_def)
  have s5: "f64_sub (Num (3258072855425843 / 17592186044416)) (Num 0)
            = Num (3258072855425843 / 17592186044416)"
    unfolding f64_sub_def by (simp add: d1)
  have s6: "f64_div (Num (3258072855425843 / 17592186044416))
                (Num (8535728668750643 / 17592186044416))
            = Num (6876064723734673 / 18014398509481984)"
    unfolding f64_div_def
    by (simp, subst f64_round_normal [of "- 2"])
       (simp_all add: power_int_minus round_half_even_def Let_def)
  have about: "isElementInViewport (Num 800)
      (Some \<lparr>sec_id = ''about'', rect_top = Num (- 300),
              rect_bottom = Num (3258072855425843 / 17592186044416)\<rparr>) (f64_round (3 / 10))"
    by (simp add: isElementInViewport_def Math_min_Num Math_max_Num s4 s5 s6 lit_0_3)
  have projects: "\<not> isElementInViewport (Num 800)
      (Some \<lparr>sec_id = ''projects'', rect_top = Num (3258072855425843 / 17592186044416),
              rect_bottom = Num (4913790765306129 / 2199023255552)\<rparr>) (f64_round (3 / 10))"
    by (simp add: isElementInViewport_def Math_min_Num Math_max_Num s1 s2 s3 lit_0_3)
  have c1: "is_double (Num (3258072855425843 / 17592186044416))"
    and c2: "is_double (Num (4913790765306129 / 2199023255552))"
    by (simp_all add: is_double_def d1 d2)
  have v: "f64_sub (Math_min (Num (4913790765306129 / 2199023255552)) (Num 800))
        (Math_max (Num (3258072855425843 / 17592186044416)) (Num 0))
       = Num (2703918995026739 / 4398046511104)"
    by (simp add: Math_min_Num Math_max_Num s2)
  have g: "\<not> f64_ge (Num (2702159776422297 / 9007199254740992)) (f64_round (3 / 10))"
    by (simp add: lit_0_3)
  have rest: "map sec_id (spec_qualifying (Num 800)
           [\<lparr>sec_id = ''about'', rect_top = Num (- 300),
              rect_bottom = Num (3258072855425843 / 17592186044416)\<rparr>,
            \<lparr>sec_id = ''projects'', rect_top = Num (3258072855425843 / 17592186044416),
              rect_bottom = Num (4913790765306129 / 2199023255552)\<rparr>])
          = [''about'', ''projects'']
      \<and> map sec_id (qualifying (Num 800)
           [\<lparr>sec_id = ''about'', rect_top = Num (- 300),
              rect_bottom = Num (3258072855425843 / 17592186044416)\<rparr>,
            \<lparr>sec_id = ''projects'', rect_top = Num (3258072855425843 / 17592186044416),
              rect_bottom = Num (4913790765306129 / 2199023255552)\<rparr>])
          = [''about'']
      \<and> activeSection (nav_run
           [\<lparr>href = Some ''#about'', classes = [''nav-link'']\<rparr>,
            \<lparr>href = Some ''#projects'', classes = [''nav-link'']\<rparr>]
           (Num 800, [\<lparr>sec_id = ''about'', rect_top = Num 800, rect_bottom = Num 1285\<rparr>,
                      \<lparr>sec_id = ''projects'', rect_top = Num 1285, rect_bottom = Num 3334\<rparr>])
           [(Num 800,
             [\<lparr>sec_id = ''about'', rect_top = Num (- 300),
                rect_bottom = Num (3258072855425843 / 17592186044416)\<rparr>,
              \<lparr>sec_id = ''projects'', rect_top = Num (3258072855425843 / 17592186044416),
                rect_bottom = Num (4913790765306129 / 2199023255552)\<rparr>])])
          = Some ''about''
      \<and> map is_active (navLinks (nav_run
           [\<lparr>href = Some ''#about'', classes = [''nav-link'']\<rparr>,
            \<lparr>href = Some ''#projects'', classes = [''nav-link'']\<rparr>]
           (Num 800, [\<lparr>sec_id = ''about'', rect_top = Num 800, rect_bottom = Num 1285\<rparr>,
                      \<lparr>sec_id = ''projects'', rect_top = Num 1285, rect_bottom = Num 3334\<rparr>])
           [(Num 800,
             [\<lparr>sec_id = ''about'', rect_top = Num (- 300),
                rect_bottom = Num (3258072855425843 / 17592186044416)\<rparr>,
              \<lparr>sec_id = ''projects'', rect_top = Num (3258072855425843 / 17592186044416),
                rect_bottom = Num (4913790765306129 / 2199023255552)\<rparr>])]))
          = [True, False]"
    by (simp add: spec_qualifying_def about projects nav_eval)
  from c1 c2 s1 v s3 g rest show ?thesis by blast
qed

text \<open>
  Claim C7, amended. In every recomputation of the active section, on load or on scroll, in
  which two or more sections pass the test \<^verbatim>\<open>isElementInViewport(section, 0.3)\<close> (the
  visible height divided by the height, both differences and the quotient rounded to double
  precision, is at least the double \<^verbatim>\<open>0.3\<close>), the active section becomes the id of the
  last of them in document order, and afterwards a navigation link carries \<^verbatim>\<open>active\<close>
  exactly when its \<^verbatim>\<open>href\<close> is \<^verbatim>\<open>#\<close> followed by that id. On whole-pixel geometry
  the sections that pass the test are exactly those with at least 30% of their height
  inside the viewport.
\<close>

theorem last_qualifying_section_wins:
  assumes "2 \<le> length (qualifying h secs)"
  shows "activeSection (nav_run links (h, secs) []) = Some (sec_id (last (qualifying h secs)))
       \<and> list_all (\<lambda>l. is_active l = (href l = Some (''#'' @ sec_id (last (qualifying h secs)))))
            (navLinks (nav_run links (h, secs) []))
       \<and> activeSection (updateActiveSection h secs (nav_run links g0 gs))
           = Some (sec_id (last (qualifying h secs)))
       \<and> list_all (\<lambda>l. is_active l = (href l = Some (''#'' @ sec_id (last (qualifying h secs)))))
            (navLinks (updateActiveSection h secs (nav_run links g0 gs)))
       \<and> (integer_geometry h secs \<longrightarrow> qualifying h secs = spec_qualifying h secs)"
proof -
  from assms have ne: "qualifying h secs \<noteq> []" by auto
  have step: "activeSection (updateActiveSection h secs n) = Some (sec_id (last (qualifying h secs)))
      \<and> list_all (\<lambda>l. is_active l = (href l = Some (''#'' @ sec_id (last (qualifying h secs)))))
            (navLinks (updateActiveSection h secs n))"
    if "activeSection n = None \<or> nav_inv n" for n
    using updateActiveSection_active [OF that, of h secs]
    by (auto simp add: nav_inv_def current_section_last [OF ne])
  have load: "nav_run links (h, secs) [] = updateActiveSection h secs \<lparr>activeSection = None, navLinks = links\<rparr>"
    by (simp add: nav_run_def Navigation_constructor_def)
  have "activeSection \<lparr>activeSection = None, navLinks = links\<rparr> = None
      \<or> nav_inv \<lparr>activeSection = None, navLinks = links\<rparr>"
    by simp
  from step [OF this] step [of "nav_run links g0 gs"] show ?thesis
    unfolding load by (simp add: nav_run_inv qualifying_integer)
qed

theorem last_qualifying_section_wins_witness:
  "2 \<le> length (qualifying (Num 800)
       [\<lparr>sec_id = ''home'', rect_top = Num (- 700), rect_bottom = Num 300\<rparr>,
        \<lparr>sec_id = ''about'', rect_top = Num 300, rect_bottom = Num 600\<rparr>,
        \<lparr>sec_id = ''projects'', rect_top = Num 600, rect_bottom = Num 1300\<rparr>])
   \<and> integer_geometry (Num 800)
       [\<lparr>sec_id = ''home'', rect_top = Num (- 700), rect_bottom = Num 300\<rparr>,
        \<lparr>sec_id = ''about'', rect_top = Num 300, rect_bottom = Num 600\<rparr>,
        \<lparr>sec_id = ''projects'', rect_top = Num 600, rect_bottom = Num 1300\<rparr>]
   \<and> map sec_id (qualifying (Num 800)
       [\<lparr>sec_id = ''home'', rect_top = Num (- 700), rect_bottom = Num 300\<rparr>,
        \<lparr>sec_id = ''about'', rect_top = Num 300, rect_bottom = Num 600\<rparr>,
        \<lparr>sec_id = ''projects'', rect_top = Num 600, rect_bottom = Num 1300\<rparr>])
       = [''home'', ''about'']
   \<and> map sec_id (spec_qualifying (Num 800)
       [\<lparr>sec_id = ''home'', rect_top = Num (- 700), rect_bottom = Num 300\<rparr>,
        \<lparr>sec_id = ''about'', rect_top = Num 300, rect_bottom = Num 600\<rparr>,
        \<lparr>sec_id = ''projects'', rect_top = Num 600, rect_bottom = Num 1300\<rparr>])
       = [''home'', ''about'']
   \<and> activeSection (updateActiveSection (Num 800)
       [\<lparr>sec_id = ''home'', rect_top = Num (- 700), rect_bottom = Num 300\<rparr>,
        \<lparr>sec_id = ''about'', rect_top = Num 300, rect_bottom = Num 600\<rparr>,
        \<lparr>sec_id = ''projects'', rect_top = Num 600, rect_bottom = Num 1300\<rparr>]
       (nav_run
         [\<lparr>href = Some ''#home'', classes = [''nav-link'', ''active'']\<rparr>,
          \<lparr>href = Some ''#about'', classes = [''nav-link'']\<rparr>,
          \<lparr>href = Some ''#projects'', classes = [''nav-link'']\<rparr>]
         (Num 800, [\<lparr>sec_id = ''home'', rect_top = Num 0, rect_bottom = Num 800\<rparr>]) []))
       = Some ''about''
   \<and> map is_active (navLinks (updateActiveSection (Num 800)
       [\<lparr>sec_id = ''home'', rect_top = Num (- 700), rect_bottom = Num 300\<rparr>,
        \<lparr>sec_id = ''about'', rect_top = Num 300, rect_bottom = Num 600\<rparr>,
        \<lparr>sec_id = ''projects'', rect_top = Num 600, rect_bottom = Num 1300\<rparr>]
       (nav_run
         [\<lparr>href = Some ''#home'', classes = [''nav-link'', ''active'']\<rparr>,
          \<lparr>href = Some ''#about'', classes = [''nav-link'']\<rparr>,
          \<lparr>href = Some ''#projects'', classes = [''nav-link'']\<rparr>]
         (Num 800, [\<lparr>sec_id = ''home'', rect_top = Num 0, rect_bottom = Num 800\<rparr>]) [])))
       = [False, True, False]"
  using last_qualifying_section_wins
    [of "Num 800"
        "[\<lparr>sec_id = ''home'', rect_top = Num (- 700), rect_bottom = Num 300\<rparr>,
          \<lparr>sec_id = ''about'', rect_top = Num 300, rect_bottom = Num 600\<rparr>,
          \<lparr>sec_id = ''projects'', rect_top = Num 600, rect_bottom = Num 1300\<rparr>]"
        "[\<lparr>href = Some ''#home'', classes = [''nav-link'', ''active'']\<rparr>,
          \<lparr>href = Some ''#about'', classes = [''nav-link'']\<rparr>,
          \<lparr>href = Some ''#projects'', classes = [''nav-link'']\<rparr>]"
        "(Num 800, [\<lparr>sec_id = ''home'', rect_top = Num 0, rect_bottom = Num 800\<rparr>])" "[]"]
  by (simp add: nav_eval integer_geometry_def integer_pixel_def spec_qualifying_def)

section \<open>Properties of regular expressions\<close>

lemma nullable_iff: "nullable r \<longleftrightarrow> [] \<in> lang r"
  by (induction r) (auto intro: star_nil)

lemma star_cons:
  "c # s \<in> star L \<longleftrightarrow> (\<exists>u v. c # u \<in> L \<and> v \<in> star L \<and> s = u @ v)"
proof
  assume "c # s \<in> star L"
  then show "\<exists>u v. c # u \<in> L \<and> v \<in> star L \<and> s = u @ v"
  proof (induction "c # s" rule: star.induct)
    case (star_app u v)
    then show ?case by (cases u) auto
  qed
next
  assume "\<exists>u v. c # u \<in> L \<and> v \<in> star L \<and> s = u @ v"
  then obtain u v where "c # u \<in> L" "v \<in> star L" "s = u @ v" by blast
  then show "c # s \<in> star L" using star_app [of "c # u" L v] by simp
qed

lemma deriv_lang: "(\<exists>r' \<in> set (deriv c r). s \<in> lang r') \<longleftrightarrow> c # s \<in> lang r"
proof (induction r arbitrary: s)
  case (Seq r1 r2)
  show ?case
  proof
    assume "\<exists>r'\<in>set (deriv c (Seq r1 r2)). s \<in> lang r'"
    then consider (l) r' where "r' \<in> set (deriv c r1)" "s \<in> lang (Seq r' r2)"
      | (r) r' where "nullable r1" "r' \<in> set (deriv c r2)" "s \<in> lang r'"
      by (auto split: if_splits)
    then show "c # s \<in> lang (Seq r1 r2)"
    proof cases
      case l
      then obtain u v where "u \<in> lang r'" "v \<in> lang r2" "s = u @ v" by auto
      with l(1) Seq.IH(1) [of u] have "c # u \<in> lang r1" by blast
      with \<open>v \<in> lang r2\<close> \<open>s = u @ v\<close> have "c # s = (c # u) @ v \<and> c # u \<in> lang r1 \<and> v \<in> lang r2"
        by simp
      then show ?thesis unfolding lang.simps by blast
    next
      case r
      with Seq.IH(2) [of s] have "c # s \<in> lang r2" by blast
      moreover from r(1) have "[] \<in> lang r1" by (simp add: nullable_iff)
      ultimately show ?thesis by fastforce
    qed
  next
    assume "c # s \<in> lang (Seq r1 r2)"
    then obtain u v where uv: "u \<in> lang r1" "v \<in> lang r2" "c # s = u @ v" by auto
    show "\<exists>r'\<in>set (deriv c (Seq r1 r2)). s \<in> lang r'"
    proof (cases u)
      case Nil
      with uv have "nullable r1" "c # s \<in> lang r2" by (simp_all add: nullable_iff)
      with Seq.IH(2) [of s] show ?thesis by auto
    next
      case (Cons d u')
      with uv have "c # u' \<in> lang r1" "s = u' @ v" by simp_all
      with Seq.IH(1) [of u'] obtain r' where "r' \<in> set (deriv c r1)" "u' \<in> lang r'" by blast
      with \<open>s = u' @ v\<close> uv(2) have "Seq r' r2 \<in> set (deriv c (Seq r1 r2))" "s \<in> lang (Seq r' r2)"
        by auto
      then show ?thesis by blast
    qed
  qed
next
  case (Star r)
  show ?case
  proof
    assume "\<exists>r'\<in>set (deriv c (Star r)). s \<in> lang r'"
    then obtain r' u v where "r' \<in> set (deriv c r)" "u \<in> lang r'" "v \<in> star (lang r)" "s = u @ v"
      by auto
    with Star.IH [of u] show "c # s \<in> lang (Star r)"
      by (auto simp add: star_cons)
  next
    assume "c # s \<in> lang (Star r)"
    then obtain u v where "c # u \<in> lang r" "v \<in> star (lang r)" "s = u @ v"
      by (auto simp add: star_cons)
    with Star.IH [of u] show "\<exists>r'\<in>set (deriv c (Star r)). s \<in> lang r'"
      by auto
  qed
qed auto

lemma matches_any_lang: "matches_any rs s \<longleftrightarrow> (\<exists>r \<in> set rs. s \<in> lang r)"
proof (induction s arbitrary: rs)
  case Nil
  then show ?case by (auto simp add: list_ex_iff nullable_iff)
next
  case (Cons c s)
  have "matches_any rs (c # s) \<longleftrightarrow> (\<exists>r \<in> set rs. \<exists>r' \<in> set (deriv c r). s \<in> lang r')"
    by (auto simp add: Cons.IH)
  then show ?case by (simp add: deriv_lang)
qed

lemma regex_test_lang: "regex_test r s \<longleftrightarrow> s \<in> lang r"
  by (simp add: regex_test_def matches_any_lang)


lemma star_singletons: "star {[c] | c. P c} = {s. list_all P s}"
proof (intro equalityI subsetI)
  fix s assume "s \<in> star {[c] | c. P c}"
  then show "s \<in> {s. list_all P s}"
    by (induction rule: star.induct) auto
next
  fix s assume "s \<in> {s. list_all P s}"
  then have "list_all P s" by simp
  then show "s \<in> star {[c] | c. P c}"
  proof (induction s)
    case Nil
    show ?case by (rule star_nil)
  next
    case (Cons c s)
    then have "[c] \<in> {[c] | c. P c}" "s \<in> star {[c] | c. P c}" by auto
    then have "[c] @ s \<in> star {[c] | c. P c}" by (rule star_app)
    then show ?case by simp
  qed
qed

lemma lang_Plus_NotOneOf:
  "lang (Plus (NotOneOf as)) = {s. s \<noteq> [] \<and> list_all (\<lambda>c. \<not> list_ex (\<lambda>a. atom_matches a c) as) s}"
proof -
  let ?P = "\<lambda>c. \<not> list_ex (\<lambda>a. atom_matches a c) as"
  have "lang (Plus (NotOneOf as)) = {u @ v | u v. u \<in> {[c] | c. ?P c} \<and> list_all ?P v}"
    by (simp add: Plus_def star_singletons)
  also have "\<dots> = {s. s \<noteq> [] \<and> list_all ?P s}"
  proof (intro equalityI subsetI)
    fix s assume "s \<in> {u @ v | u v. u \<in> {[c] | c. ?P c} \<and> list_all ?P v}"
    then show "s \<in> {s. s \<noteq> [] \<and> list_all ?P s}" by auto
  next
    fix s assume "s \<in> {s. s \<noteq> [] \<and> list_all ?P s}"
    then obtain c v where "s = [c] @ v" "?P c" "list_all ?P v" by (cases s) auto
    then show "s \<in> {u @ v | u v. u \<in> {[c] | c. ?P c} \<and> list_all ?P v}" by blast
  qed
  finally show ?thesis .
qed

lemma lang_part: "lang (Plus (NotOneOf [ClassSpace, ClassChar 0x40])) = {s. s \<noteq> [] \<and> list_all part_char s}"
  by (simp add: lang_Plus_NotOneOf part_char_def [abs_def])

lemma isValidEmail_iff_shape: "isValidEmail e \<longleftrightarrow> local_at_domain_tld e"
proof -
  have "lang emailRegex = {a @ [0x40] @ b @ [0x2E] @ c | a b c.
      a \<noteq> [] \<and> b \<noteq> [] \<and> c \<noteq> [] \<and> list_all part_char a \<and> list_all part_char b \<and> list_all part_char c}"
    unfolding emailRegex_def lang.simps(5) [of "Plus _"] lang_part lang.simps(5) [of "Char _"] lang.simps(3)
    by (simp only: mem_Collect_eq) blast
  then show ?thesis
    by (simp add: isValidEmail_def regex_test_lang local_at_domain_tld_def)
qed
section \<open>Properties of timers\<close>

lemma earliest_mem: "earliest ts = Some t \<Longrightarrow> t \<in> set ts"
  by (induction ts arbitrary: t) (auto split: option.splits if_splits)

lemma earliest_None: "earliest ts = None \<longleftrightarrow> ts = []"
  by (cases ts) (auto split: option.splits)

lemma earliest_le: "earliest ts = Some t \<Longrightarrow> u \<in> set ts \<Longrightarrow> fst t \<le> fst u"
  by (induction ts arbitrary: t) (auto simp add: earliest_None split: option.splits if_splits)

lemma set_remove1_insert: "t \<in> set ts \<Longrightarrow> set ts = insert t (set (remove1 t ts))"
  by (induction ts) auto

section \<open>Properties of the form controller\<close>

lemmas form_eval = handleContactForm_def validateForm_def validateField_def form_data_def
  requiredFields_def check_required_def is_blank_def email_rejected_def showFieldError_def
  clearFieldError_def remove_existing_def trim_def js_def isWhiteSpace_def isValidEmail_def
  regex_test_def emailRegex_def Plus_def contact_form_def marked_def Let_def

lemma only_marks_refl: "only_marks p p"
  by (simp add: only_marks_def)

lemma only_marks_trans: "only_marks p q \<Longrightarrow> only_marks q r \<Longrightarrow> only_marks p r"
  by (simp add: only_marks_def)

lemma showFieldError_only_marks: "only_marks p (showFieldError g m p)"
  by (cases "controls p g")
     (auto simp add: only_marks_def showFieldError_def form_data_def marked_def fun_eq_iff
        split: option.splits)

lemma showFieldError_marked: "controls p g \<noteq> None \<Longrightarrow> marked (showFieldError g m p) g"
  by (auto simp add: showFieldError_def marked_def)

lemma check_required_only_marks: "only_marks (snd st) (snd (check_required data st g))"
  by (simp add: check_required_def showFieldError_only_marks only_marks_refl)

lemma foldl_required_only_marks: "only_marks (snd st) (snd (foldl (check_required data) st fs))"
proof (induction fs arbitrary: st)
  case Nil
  show ?case by (simp add: only_marks_refl)
next
  case (Cons g fs)
  have "only_marks (snd st) (snd (check_required data st g))"
    by (rule check_required_only_marks)
  from only_marks_trans [OF this Cons.IH [of "check_required data st g"]]
  show ?case by simp
qed

lemma foldl_required_fst:
  "fst (foldl (check_required data) st fs) = (fst st \<and> (\<forall>g \<in> set fs. \<not> is_blank (data g)))"
  by (induction fs arbitrary: st) (auto simp add: check_required_def)

lemma foldl_required_marked:
  "g \<in> set fs \<Longrightarrow> is_blank (data g) \<Longrightarrow> controls (snd st) g \<noteq> None
   \<Longrightarrow> marked (snd (foldl (check_required data) st fs)) g"
proof (induction fs arbitrary: st)
  case Nil
  then show ?case by simp
next
  case (Cons h fs)
  let ?st = "check_required data st h"
  have om: "only_marks (snd st) (snd ?st)" by (rule check_required_only_marks)
  show ?case
  proof (cases "g = h")
    case True
    with Cons.prems have "marked (snd ?st) g"
      by (simp add: check_required_def showFieldError_marked)
    moreover have "only_marks (snd ?st) (snd (foldl (check_required data) ?st fs))"
      by (rule foldl_required_only_marks)
    ultimately show ?thesis by (simp add: only_marks_def)
  next
    case False
    with Cons.prems have "g \<in> set fs" by simp
    moreover from om Cons.prems(3) have "controls (snd ?st) g \<noteq> None"
      by (simp add: only_marks_def)
    ultimately show ?thesis using Cons.IH [of ?st] Cons.prems(2) by simp
  qed
qed

lemma validateForm_only_marks: "only_marks p (snd (validateForm data p))"
proof -
  let ?st = "foldl (check_required data) (True, p) requiredFields"
  have "only_marks p (snd ?st)" using foldl_required_only_marks [of "(True, p)"] by simp
  moreover have "only_marks (snd ?st) (showFieldError ''email'' m (snd ?st))" for m
    by (rule showFieldError_only_marks)
  ultimately show ?thesis
    by (auto simp add: validateForm_def Let_def intro: only_marks_trans)
qed

lemma validateForm_fst:
  "fst (validateForm data p)
   = ((\<forall>g \<in> set requiredFields. \<not> is_blank (data g)) \<and> \<not> email_rejected (data ''email''))"
  by (simp add: validateForm_def Let_def foldl_required_fst)

lemma validateForm_marked:
  assumes "g \<in> set requiredFields" and "field_fails data g" and "controls p g \<noteq> None"
  shows "marked (snd (validateForm data p)) g"
proof -
  let ?st = "foldl (check_required data) (True, p) requiredFields"
  have om: "only_marks p (snd ?st)" using foldl_required_only_marks [of "(True, p)"] by simp
  have blank: "marked (snd ?st) g" if "is_blank (data g)"
    using foldl_required_marked [of g requiredFields data "(True, p)"] assms that by simp
  show ?thesis
  proof (cases "email_rejected (data ''email'')")
    case True
    show ?thesis
    proof (cases "g = ''email''")
      case True
      from om assms(3) have "controls (snd ?st) g \<noteq> None" by (simp add: only_marks_def)
      with True \<open>email_rejected (data ''email'')\<close> show ?thesis
        by (simp add: validateForm_def Let_def showFieldError_marked)
    next
      case False
      with assms(2) have "marked (snd ?st) g" by (simp add: field_fails_def blank)
      moreover have "only_marks (snd ?st) (showFieldError ''email'' ''Please enter a valid email address'' (snd ?st))"
        by (rule showFieldError_only_marks)
      ultimately show ?thesis using True by (simp add: validateForm_def Let_def only_marks_def)
    qed
  next
    case False
    with assms(2) have "is_blank (data g)" by (auto simp add: field_fails_def)
    with False show ?thesis by (simp add: validateForm_def Let_def blank)
  qed
qed

lemma trim_Nil: "trim [] = []"
  by (simp add: trim_def)

lemma validateForm_pass:
  assumes "\<forall>g \<in> set requiredFields. \<not> is_blank (data g)" and "\<not> email_rejected (data ''email'')"
  shows "validateForm data p = (True, p)"
  using assms
  by (simp add: validateForm_def requiredFields_def check_required_def Let_def)

lemma handleContactForm_pass:
  assumes "\<forall>g \<in> set requiredFields. \<not> is_blank (form_data p g)"
    and "\<not> email_rejected (form_data p ''email'')"
    and "submitBtn p = Some btn"
  shows "handleContactForm p = Inr (p\<lparr>submitBtn := Some (btn\<lparr>innerHTML := busy_label, disabled := True\<rparr>),
        timeouts := timeouts p @ [(now p + 2000, SubmitDone (innerHTML btn))]\<rparr>)"
  using assms(3) by (simp add: handleContactForm_def validateForm_pass [OF assms(1,2)])

lemma SubmitDone_effect:
  assumes "submitBtn q = Some b"
  shows "\<exists>q'. run_callback (SubmitDone orig) q = Inr q'
           \<and> success_messages q' = success_messages q @ [next_node q]
           \<and> all_default q q'
           \<and> submitBtn q' = Some \<lparr>innerHTML = orig, disabled = False\<rparr>
           \<and> timeouts q' = timeouts q @ [(now q + 5000, RemoveSuccess (next_node q))]
           \<and> now q' = now q"
  using assms
  by (cases b) (auto simp add: showFormSuccess_def form_reset_def all_default_def Let_def
      split: option.splits)

lemma RemoveSuccess_effect:
  "\<exists>r'. run_callback (RemoveSuccess node) r = Inr r' \<and> node \<notin> set (success_messages r')
         \<and> submitBtn r' = submitBtn r \<and> controls r' = controls r \<and> timeouts r' = timeouts r
         \<and> now r' = now r"
  by simp

text \<open>
  Claim C1. When a required field of the contact form is empty at submit, the handler
  returns after validation: the submit control, the pending timers, the banners and the
  values of the fields are what they were before (no busy state, no timer, no reset), and
  every field that fails validation and is in the document has an inline error shown
  next to it.
\<close>

theorem empty_required_field_aborts_submit:
  assumes "f \<in> set requiredFields" and "controls p f = Some c" and "fvalue c = []"
  shows "\<exists>p'. handleContactForm p = Inr p'
           \<and> submitBtn p' = submitBtn p \<and> timeouts p' = timeouts p
           \<and> success_messages p' = success_messages p
           \<and> form_data p' = form_data p
           \<and> (\<forall>g \<in> set requiredFields.
                 field_fails (form_data p) g \<and> controls p g \<noteq> None \<longrightarrow> marked p' g)"
proof -
  let ?data = "form_data p"
  let ?p' = "snd (validateForm ?data p)"
  from assms have "is_blank (?data f)" by (simp add: form_data_def is_blank_def)
  with assms(1) have "\<not> fst (validateForm ?data p)" by (auto simp add: validateForm_fst)
  then have "handleContactForm p = Inr ?p'"
    by (simp add: handleContactForm_def Let_def split_beta)
  moreover have "only_marks p ?p'" by (rule validateForm_only_marks)
  moreover have "\<forall>g \<in> set requiredFields.
      field_fails ?data g \<and> controls p g \<noteq> None \<longrightarrow> marked ?p' g"
    by (auto intro: validateForm_marked)
  ultimately show ?thesis by (simp add: only_marks_def)
qed

theorem empty_required_field_aborts_submit_witness:
  "''name'' \<in> set requiredFields
   \<and> controls (contact_form [] (js ''tyler@example.com'') (js ''Hello'') []) ''name''
       = Some \<lparr>fvalue = [], borderColor = [], parentNode = 1, required = True, defaultValue = []\<rparr>
   \<and> fvalue \<lparr>fvalue = [], borderColor = [], parentNode = 1, required = True, defaultValue = []\<rparr> = []
   \<and> (\<exists>p'. handleContactForm (contact_form [] (js ''tyler@example.com'') (js ''Hello'') []) = Inr p'
          \<and> submitBtn p' = Some \<lparr>innerHTML = ''Send Message'', disabled = False\<rparr>
          \<and> timeouts p' = [] \<and> success_messages p' = []
          \<and> form_data p' ''subject'' = Some (js ''Hello'')
          \<and> marked p' ''name'' \<and> marked p' ''message''
          \<and> \<not> marked p' ''email'' \<and> \<not> marked p' ''subject''
          \<and> error_messages p' 1 = [''This field is required''])"
  using empty_required_field_aborts_submit
    [of "''name''" "contact_form [] (js ''tyler@example.com'') (js ''Hello'') []"
        "\<lparr>fvalue = [], borderColor = [], parentNode = 1, required = True, defaultValue = []\<rparr>"]
  by (simp add: form_eval)

text \<open>
  Claim C2, as stated, fails: a name of one space is not empty, yet the required check
  trims it. With such a name, a subject, a message and an email without a dot after the
  \<^verbatim>\<open>@\<close>, the submit is blocked and an inline error is shown on the name field as well
  as on the email field.
\<close>

theorem blank_name_counterexample:
  "form_data (contact_form (js '' '') (js ''tyler@example'') (js ''Hi'') (js ''Hello'')) ''name''
     = Some (js '' '')
   \<and> js '' '' \<noteq> [] \<and> js ''Hi'' \<noteq> [] \<and> js ''Hello'' \<noteq> []
   \<and> \<not> isValidEmail (js ''tyler@example'')
   \<and> (case handleContactForm (contact_form (js '' '') (js ''tyler@example'') (js ''Hi'') (js ''Hello'')) of
         Inl err \<Rightarrow> False
       | Inr p' \<Rightarrow> marked p' ''name'' \<and> error_messages p' 1 = [''This field is required'']
                   \<and> marked p' ''email'' \<and> timeouts p' = [])"
  by (simp add: form_eval)

text \<open>
  Claim C2, amended. When name, subject and message are in the form and are not blank
  (non-empty after trimming white space) and the email value does not have the shape
  \<^verbatim>\<open>local@domain.tld\<close>, the submit is blocked: the submit control, the timers, the
  banners and the values stay as they were. An inline error is shown on the email field,
  reading \<^verbatim>\<open>This field is required\<close> for an empty value and
  \<^verbatim>\<open>Please enter a valid email address\<close> for a value that is not blank, and
  nothing else changes: every
  other control and the error messages below every other parent node are as before, so
  that a field other than email with a parent node of its own that showed no error
  before the submit shows none after it.
\<close>

theorem malformed_email_marks_email_only:
  assumes n: "controls p ''name'' = Some n" "trim (fvalue n) \<noteq> []"
    and s: "controls p ''subject'' = Some s" "trim (fvalue s) \<noteq> []"
    and m: "controls p ''message'' = Some m" "trim (fvalue m) \<noteq> []"
    and e: "controls p ''email'' = Some e" "\<not> local_at_domain_tld (fvalue e)"
  shows "\<exists>p'. handleContactForm p = Inr p'
           \<and> submitBtn p' = submitBtn p \<and> timeouts p' = timeouts p
           \<and> success_messages p' = success_messages p
           \<and> form_data p' = form_data p
           \<and> marked p' ''email''
           \<and> (fvalue e = [] \<longrightarrow>
                 last (error_messages p' (parentNode e)) = ''This field is required'')
           \<and> (trim (fvalue e) \<noteq> [] \<longrightarrow>
                 last (error_messages p' (parentNode e)) = ''Please enter a valid email address'')
           \<and> (\<forall>g. g \<noteq> ''email'' \<longrightarrow> controls p' g = controls p g)
           \<and> (\<forall>k. k \<noteq> parentNode e \<longrightarrow> error_messages p' k = error_messages p k)
           \<and> (\<forall>g d. g \<noteq> ''email'' \<and> controls p g = Some d \<and> parentNode d \<noteq> parentNode e
                    \<and> \<not> marked p g \<longrightarrow> \<not> marked p' g)"
proof -
  let ?data = "form_data p"
  have nb: "\<not> is_blank (?data ''name'')" "\<not> is_blank (?data ''subject'')"
      "\<not> is_blank (?data ''message'')"
    using n s m by (auto simp add: form_data_def is_blank_def trim_Nil)
  have inv: "\<not> isValidEmail (fvalue e)" using e(2) by (simp add: isValidEmail_iff_shape)
  have de: "?data ''email'' = Some (fvalue e)" using e(1) by (simp add: form_data_def)
  let ?req = "showFieldError ''email'' ''This field is required'' p"
  let ?fmt = "showFieldError ''email'' ''Please enter a valid email address''"
  have vf: "validateForm ?data p =
      (if fvalue e = [] then (False, ?req)
       else if trim (fvalue e) = [] then (False, ?fmt ?req)
       else (False, ?fmt p))"
    using nb inv de
    by (simp add: validateForm_def requiredFields_def check_required_def Let_def
        email_rejected_def is_blank_def)
  have hc: "handleContactForm p = Inr (snd (validateForm ?data p))"
    by (simp add: handleContactForm_def Let_def vf)
  obtain p' where p': "handleContactForm p = Inr p'"
    and frame: "submitBtn p' = submitBtn p" "timeouts p' = timeouts p"
      "success_messages p' = success_messages p" "form_data p' = form_data p"
    and email: "marked p' ''email''"
    and msg: "last (error_messages p' (parentNode e))
         = (if fvalue e = [] then ''This field is required''
            else ''Please enter a valid email address'')"
    and others: "\<forall>g. g \<noteq> ''email'' \<longrightarrow> controls p' g = controls p g"
      "\<forall>k. k \<noteq> parentNode e \<longrightarrow> error_messages p' k = error_messages p k"
    unfolding hc vf using e(1)
    by (simp add: showFieldError_def marked_def form_data_def fun_eq_iff)
  from others have "\<not> marked p' g"
    if "g \<noteq> ''email''" "controls p g = Some d" "parentNode d \<noteq> parentNode e" "\<not> marked p g"
    for g d
    using that by (simp add: marked_def)
  then have "\<forall>g d. g \<noteq> ''email'' \<and> controls p g = Some d \<and> parentNode d \<noteq> parentNode e
      \<and> \<not> marked p g \<longrightarrow> \<not> marked p' g"
    by blast
  moreover from msg have "fvalue e = [] \<longrightarrow>
      last (error_messages p' (parentNode e)) = ''This field is required''"
    by simp
  moreover from msg have "trim (fvalue e) \<noteq> [] \<longrightarrow>
      last (error_messages p' (parentNode e)) = ''Please enter a valid email address''"
    by (auto simp add: trim_Nil)
  ultimately show ?thesis using p' frame email others by blast
qed

theorem malformed_email_marks_email_only_witness:
  "controls (contact_form (js ''Tyler'') (js ''tyler@example'') (js ''Hi'') (js ''Hello'')) ''email''
     = Some \<lparr>fvalue = js ''tyler@example'', borderColor = [], parentNode = 2, required = True,
             defaultValue = []\<rparr>
   \<and> trim (js ''Tyler'') \<noteq> [] \<and> trim (js ''Hi'') \<noteq> [] \<and> trim (js ''Hello'') \<noteq> []
   \<and> \<not> local_at_domain_tld (js ''tyler@example'')
   \<and> (\<exists>p'. handleContactForm (contact_form (js ''Tyler'') (js ''tyler@example'') (js ''Hi'') (js ''Hello''))
            = Inr p'
          \<and> submitBtn p' = Some \<lparr>innerHTML = ''Send Message'', disabled = False\<rparr>
          \<and> timeouts p' = []
          \<and> marked p' ''email''
          \<and> error_messages p' 2 = [''Please enter a valid email address'']
          \<and> error_messages p' 1 = [] \<and> error_messages p' 3 = [] \<and> error_messages p' 4 = []
          \<and> \<not> marked p' ''name'' \<and> \<not> marked p' ''subject'' \<and> \<not> marked p' ''message'')"
proof -
  have shape: "\<not> local_at_domain_tld (js ''tyler@example'')"
    by (simp add: isValidEmail_iff_shape [symmetric] form_eval)
  show ?thesis
    using shape malformed_email_marks_email_only
      [of "contact_form (js ''Tyler'') (js ''tyler@example'') (js ''Hi'') (js ''Hello'')"
          "\<lparr>fvalue = js ''Tyler'', borderColor = [], parentNode = 1, required = True,
            defaultValue = []\<rparr>"
          "\<lparr>fvalue = js ''Hi'', borderColor = [], parentNode = 3, required = True,
            defaultValue = []\<rparr>"
          "\<lparr>fvalue = js ''Hello'', borderColor = [], parentNode = 4, required = True,
            defaultValue = []\<rparr>"
          "\<lparr>fvalue = js ''tyler@example'', borderColor = [], parentNode = 2, required = True,
            defaultValue = []\<rparr>"]
    by (simp add: form_eval)
qed

lemma run_idle:
  "list_all is_removal (timeouts q) \<Longrightarrow>
   \<exists>q'. run_page_until T q = Inr q'
      \<and> submitBtn q' = submitBtn q \<and> controls q' = controls q \<and> next_node q' = next_node q
      \<and> (\<forall>n. n \<in> set (success_messages q')
            \<longleftrightarrow> n \<in> set (success_messages q)
                \<and> (\<forall>d. (d, RemoveSuccess n) \<in> set (timeouts q) \<longrightarrow> T < d))"
proof (induction T q rule: run_page_until.induct)
  case (1 T q)
  show ?case
  proof (cases "earliest (timeouts q)")
    case None
    then have "timeouts q = []" by (simp add: earliest_None)
    with None show ?thesis by (simp add: run_page_until.simps [of T q])
  next
    case (Some t)
    then have mem: "t \<in> set (timeouts q)" by (rule earliest_mem)
    show ?thesis
    proof (cases "fst t \<le> T")
      case False
      have "T < d" if "(d, cb) \<in> set (timeouts q)" for d cb
        using earliest_le [OF Some that] False by simp
      with Some False show ?thesis by (auto simp add: run_page_until.simps [of T q])
    next
      case True
      from mem "1.prems" have "is_removal t" by (simp add: list_all_iff)
      then obtain d b where t: "t = (d, RemoveSuccess b)"
        by (cases t) (auto simp add: is_removal_def split: timeout_callback.splits)
      let ?q1 = "q\<lparr>timeouts := remove1 t (timeouts q), now := max (now q) (fst t),
                    success_messages := removeAll b (success_messages q)\<rparr>"
      have rc: "run_callback (snd t) (q\<lparr>timeouts := remove1 t (timeouts q), now := max (now q) (fst t)\<rparr>)
          = Inr ?q1"
        by (simp add: t)
      have ru: "run_page_until T q = run_page_until T ?q1"
        using Some True rc by (simp add: run_page_until.simps [of T q])
      have idle1: "list_all is_removal (timeouts ?q1)"
        using "1.prems" by (auto simp add: list_all_iff dest: notin_set_remove1)
      from "1.IH" [OF Some True rc idle1] obtain q' where q':
        "run_page_until T ?q1 = Inr q'" "submitBtn q' = submitBtn q" "controls q' = controls q"
        "next_node q' = next_node q"
        "\<forall>n. n \<in> set (success_messages q')
            \<longleftrightarrow> n \<in> set (removeAll b (success_messages q))
                \<and> (\<forall>d. (d, RemoveSuccess n) \<in> set (remove1 t (timeouts q)) \<longrightarrow> T < d)"
        by auto
      have sets: "set (timeouts q) = insert t (set (remove1 t (timeouts q)))"
        using mem by (rule set_remove1_insert)
      have "n \<in> set (success_messages q')
            \<longleftrightarrow> n \<in> set (success_messages q)
                \<and> (\<forall>d. (d, RemoveSuccess n) \<in> set (timeouts q) \<longrightarrow> T < d)" for n
      proof (cases "n = b")
        case True
        with q'(5) have "n \<notin> set (success_messages q')" by simp
        moreover from True t mem \<open>fst t \<le> T\<close>
        have "\<not> (\<forall>d. (d, RemoveSuccess n) \<in> set (timeouts q) \<longrightarrow> T < d)" by force
        ultimately show ?thesis by simp
      next
        case False
        then have "(d', RemoveSuccess n) \<in> set (timeouts q)
            \<longleftrightarrow> (d', RemoveSuccess n) \<in> set (remove1 t (timeouts q))" for d'
          by (subst sets) (simp add: t)
        with False q'(5) show ?thesis by simp
      qed
      with q'(1-4) show ?thesis unfolding ru by simp
    qed
  qed
qed

lemma run_submit_pending:
  "submit_pending D orig q \<Longrightarrow> submitBtn q = Some b0 \<Longrightarrow>
   \<exists>q'. run_page_until T q = Inr q'
      \<and> (if T < D
          then submitBtn q' = submitBtn q \<and> controls q' = controls q
             \<and> next_node q \<notin> set (success_messages q')
          else submitBtn q' = Some \<lparr>innerHTML = orig, disabled = False\<rparr>
             \<and> all_default q q'
             \<and> (next_node q \<in> set (success_messages q') \<longleftrightarrow> T < D + 5000))"
proof (induction T q rule: run_page_until.induct)
  case (1 T q)
  let ?t0 = "(D, SubmitDone orig)"
  from "1.prems"(1) have flt: "filter (\<lambda>t. \<not> is_removal t) (timeouts q) = [?t0]"
    and fresh: "list_all (\<lambda>t. snd t \<noteq> RemoveSuccess (next_node q)) (timeouts q)"
      "next_node q \<notin> set (success_messages q)"
    and clock: "now q \<le> D"
    by (simp_all add: submit_pending_def)
  have "?t0 \<in> set (filter (\<lambda>t. \<not> is_removal t) (timeouts q))" by (simp add: flt)
  then have t0: "?t0 \<in> set (timeouts q)" by simp
  then obtain t where Some: "earliest (timeouts q) = Some t"
    by (cases "earliest (timeouts q)") (auto simp add: earliest_None)
  then have mem: "t \<in> set (timeouts q)" by (rule earliest_mem)
  from earliest_le [OF Some t0] have le: "fst t \<le> D" by simp
  show ?case
  proof (cases "fst t \<le> T")
    case False
    with le have "T < D" by simp
    with Some False fresh(2) show ?thesis by (simp add: run_page_until.simps [of T q])
  next
    case True
    let ?q0 = "q\<lparr>timeouts := remove1 t (timeouts q), now := max (now q) (fst t)\<rparr>"
    have flt0: "filter (\<lambda>t. \<not> is_removal t) (timeouts ?q0) = remove1 t [?t0]"
      by (simp add: filter_remove1 flt)
    show ?thesis
    proof (cases "is_removal t")
      case True
      then obtain d b where t: "t = (d, RemoveSuccess b)"
        by (cases t) (auto simp add: is_removal_def split: timeout_callback.splits)
      let ?q1 = "?q0\<lparr>success_messages := removeAll b (success_messages q)\<rparr>"
      have rc: "run_callback (snd t) ?q0 = Inr ?q1" by (simp add: t)
      have ru: "run_page_until T q = run_page_until T ?q1"
        using Some \<open>fst t \<le> T\<close> rc by (simp add: run_page_until.simps [of T q])
      have "submit_pending D orig ?q1"
        using flt0 fresh clock le
        by (auto simp add: submit_pending_def t list_all_iff dest: notin_set_remove1)
      moreover have "submitBtn ?q1 = Some b0" using "1.prems"(2) by simp
      ultimately obtain q' where "run_page_until T ?q1 = Inr q'"
        "if T < D
         then submitBtn q' = submitBtn ?q1 \<and> controls q' = controls ?q1
            \<and> next_node ?q1 \<notin> set (success_messages q')
         else submitBtn q' = Some \<lparr>innerHTML = orig, disabled = False\<rparr>
            \<and> all_default ?q1 q'
            \<and> (next_node ?q1 \<in> set (success_messages q') \<longleftrightarrow> T < D + 5000)"
        using "1.IH" [OF Some \<open>fst t \<le> T\<close> rc] by blast
      then show ?thesis unfolding ru by (auto simp add: all_default_def split: if_splits)
    next
      case False
      with mem have "t \<in> set (filter (\<lambda>t. \<not> is_removal t) (timeouts q))" by simp
      then have t: "t = ?t0" by (simp add: flt)
      with \<open>fst t \<le> T\<close> have DT: "D \<le> T" by simp
      let ?n = "next_node q"
      let ?q1 = "q\<lparr>timeouts := remove1 t (timeouts q) @ [(D + 5000, RemoveSuccess ?n)],
                    now := D,
                    success_messages := success_messages q @ [?n],
                    next_node := ?n + 1,
                    controls := (\<lambda>n. map_option (\<lambda>f. f\<lparr>fvalue := defaultValue f\<rparr>) (controls q n)),
                    submitBtn := Some (b0\<lparr>innerHTML := orig, disabled := False\<rparr>)\<rparr>"
      have rc: "run_callback (snd t) ?q0 = Inr ?q1"
        using "1.prems"(2) clock
        by (simp add: t showFormSuccess_def form_reset_def Let_def max_def)
      have ru: "run_page_until T q = run_page_until T ?q1"
        using Some \<open>fst t \<le> T\<close> rc by (simp add: run_page_until.simps [of T q])
      from flt0 have "filter (\<lambda>t. \<not> is_removal t) (remove1 t (timeouts q)) = []"
        by (simp add: t)
      then have "list_all is_removal (remove1 t (timeouts q))"
        by (simp add: filter_empty_conv list_all_iff)
      then have idle: "list_all is_removal (timeouts ?q1)"
        by (simp add: is_removal_def)
      from run_idle [OF idle, of T] obtain q' where q': "run_page_until T ?q1 = Inr q'"
        "submitBtn q' = submitBtn ?q1" "controls q' = controls ?q1"
        "\<forall>n. n \<in> set (success_messages q')
            \<longleftrightarrow> n \<in> set (success_messages ?q1)
                \<and> (\<forall>d. (d, RemoveSuccess n) \<in> set (timeouts ?q1) \<longrightarrow> T < d)"
        by blast
      have old: "(d, RemoveSuccess ?n) \<notin> set (remove1 t (timeouts q))" for d
      proof
        assume "(d, RemoveSuccess ?n) \<in> set (remove1 t (timeouts q))"
        then have "(d, RemoveSuccess ?n) \<in> set (timeouts q)"
          using notin_set_remove1 [of "(d, RemoveSuccess ?n)" "timeouts q" t] by blast
        with fresh(1) show False by (auto simp add: list_all_iff)
      qed
      from q'(4) have "?n \<in> set (success_messages q') \<longleftrightarrow> T < D + 5000"
        by (auto simp add: old)
      moreover have "all_default q q'"
        by (auto simp add: all_default_def q'(3) split: option.splits)
      moreover have "submitBtn q' = Some \<lparr>innerHTML = orig, disabled = False\<rparr>"
        by (cases b0) (simp add: q'(2))
      ultimately show ?thesis unfolding ru using q'(1) DT by simp
    qed
  qed
qed

text \<open>
  Claim C3. When every required field passes the required check and the email passes the
  pattern, and the form has its submit button, the handler at once disables the button,
  gives it the busy label and sets a timer due 2000 ms later; it shows no banner and
  leaves the fields alone. Whenever that timer's callback runs, it inserts a new success
  banner directly in front of the form, puts every control back to its default value,
  enables the button with the label it had at submit, and sets a timer due 5000 ms later
  whose callback removes that banner. On a page where no other submission is in flight,
  with no further event: at every time before 2000 ms have passed the button is still
  busy, the controls are untouched and the banner is not there; from 2000 ms on the
  button is enabled with its original label and every control has its default value
  (the empty string when the markup gives the controls no initial value); and the banner
  is in the document exactly from 2000 ms until 7000 ms after the submit.
\<close>

theorem valid_submit_busy_then_success:
  assumes "\<forall>g \<in> set requiredFields. \<not> is_blank (form_data p g)"
    and "\<not> email_rejected (form_data p ''email'')"
    and "submitBtn p = Some btn"
  shows "\<exists>p1. handleContactForm p = Inr p1
           \<and> submitBtn p1 = Some \<lparr>innerHTML = busy_label, disabled = True\<rparr>
           \<and> timeouts p1 = timeouts p @ [(now p + 2000, SubmitDone (innerHTML btn))]
           \<and> success_messages p1 = success_messages p \<and> controls p1 = controls p
           \<and> (\<forall>q b. submitBtn q = Some b \<longrightarrow>
                 (\<exists>q'. run_callback (SubmitDone (innerHTML btn)) q = Inr q'
                    \<and> success_messages q' = success_messages q @ [next_node q]
                    \<and> all_default q q'
                    \<and> submitBtn q' = Some \<lparr>innerHTML = innerHTML btn, disabled = False\<rparr>
                    \<and> timeouts q' = timeouts q @ [(now q + 5000, RemoveSuccess (next_node q))]
                    \<and> (\<forall>r. \<exists>r'. run_callback (RemoveSuccess (next_node q)) r = Inr r'
                           \<and> next_node q \<notin> set (success_messages r'))))
           \<and> (page_idle p \<longrightarrow>
                 (\<forall>T. \<exists>q. run_page_until T p1 = Inr q
                    \<and> (T < now p + 2000 \<longrightarrow>
                          submitBtn q = Some \<lparr>innerHTML = busy_label, disabled = True\<rparr>
                          \<and> controls q = controls p
                          \<and> next_node p \<notin> set (success_messages q))
                    \<and> (now p + 2000 \<le> T \<longrightarrow>
                          submitBtn q = Some \<lparr>innerHTML = innerHTML btn, disabled = False\<rparr>
                          \<and> all_default p q
                          \<and> ((\<forall>g d. controls p g = Some d \<longrightarrow> defaultValue d = [])
                               \<longrightarrow> (\<forall>g d. controls q g = Some d \<longrightarrow> fvalue d = []))
                          \<and> (next_node p \<in> set (success_messages q) \<longleftrightarrow> T < now p + 7000))))"
proof -
  let ?p1 = "p\<lparr>submitBtn := Some (btn\<lparr>innerHTML := busy_label, disabled := True\<rparr>),
        timeouts := timeouts p @ [(now p + 2000, SubmitDone (innerHTML btn))]\<rparr>"
  have hc: "handleContactForm p = Inr ?p1" using assms by (rule handleContactForm_pass)
  have a: "submitBtn ?p1 = Some \<lparr>innerHTML = busy_label, disabled = True\<rparr>
      \<and> timeouts ?p1 = timeouts p @ [(now p + 2000, SubmitDone (innerHTML btn))]
      \<and> success_messages ?p1 = success_messages p \<and> controls ?p1 = controls p"
    by (cases btn) simp
  have b: "\<forall>q b. submitBtn q = Some b \<longrightarrow>
      (\<exists>q'. run_callback (SubmitDone (innerHTML btn)) q = Inr q'
         \<and> success_messages q' = success_messages q @ [next_node q]
         \<and> all_default q q'
         \<and> submitBtn q' = Some \<lparr>innerHTML = innerHTML btn, disabled = False\<rparr>
         \<and> timeouts q' = timeouts q @ [(now q + 5000, RemoveSuccess (next_node q))]
         \<and> (\<forall>r. \<exists>r'. run_callback (RemoveSuccess (next_node q)) r = Inr r'
                \<and> next_node q \<notin> set (success_messages r')))"
    using SubmitDone_effect by fastforce
  have c: "\<exists>q. run_page_until T ?p1 = Inr q
      \<and> (T < now p + 2000 \<longrightarrow>
            submitBtn q = Some \<lparr>innerHTML = busy_label, disabled = True\<rparr>
            \<and> controls q = controls p
            \<and> next_node p \<notin> set (success_messages q))
      \<and> (now p + 2000 \<le> T \<longrightarrow>
            submitBtn q = Some \<lparr>innerHTML = innerHTML btn, disabled = False\<rparr>
            \<and> all_default p q
            \<and> ((\<forall>g d. controls p g = Some d \<longrightarrow> defaultValue d = [])
                 \<longrightarrow> (\<forall>g d. controls q g = Some d \<longrightarrow> fvalue d = []))
            \<and> (next_node p \<in> set (success_messages q) \<longleftrightarrow> T < now p + 7000))"
    if idle: "page_idle p" for T
  proof -
    from idle have "submit_pending (now p + 2000) (innerHTML btn) ?p1"
      by (auto simp add: page_idle_def submit_pending_def list_all_iff is_removal_def
          filter_empty_conv)
    moreover from a have "submitBtn ?p1 = Some \<lparr>innerHTML = busy_label, disabled = True\<rparr>"
      by simp
    ultimately obtain q where q: "run_page_until T ?p1 = Inr q"
      "if T < now p + 2000
       then submitBtn q = submitBtn ?p1 \<and> controls q = controls ?p1
          \<and> next_node ?p1 \<notin> set (success_messages q)
       else submitBtn q = Some \<lparr>innerHTML = innerHTML btn, disabled = False\<rparr>
          \<and> all_default ?p1 q
          \<and> (next_node ?p1 \<in> set (success_messages q) \<longleftrightarrow> T < now p + 2000 + 5000)"
      using run_submit_pending [of "now p + 2000" "innerHTML btn" ?p1 _ T] by blast
    have cleared: "\<forall>g d. controls q g = Some d \<longrightarrow> fvalue d = []"
      if "all_default p q" "\<forall>g d. controls p g = Some d \<longrightarrow> defaultValue d = []"
    proof (intro allI impI)
      fix g d assume d: "controls q g = Some d"
      with that(1) obtain d0 where "controls p g = Some d0" "d = d0\<lparr>fvalue := defaultValue d0\<rparr>"
        by (auto simp add: all_default_def split: option.splits dest: spec [of _ g])
      with that(2) show "fvalue d = []" by simp
    qed
    show ?thesis
    proof (cases "T < now p + 2000")
      case True
      with q a show ?thesis by auto
    next
      case False
      with q have ad: "all_default p q" by (simp add: all_default_def)
      with False q cleared show ?thesis by auto
    qed
  qed
  from hc a b c show ?thesis by simp
qed

theorem valid_submit_busy_then_success_witness:
  "list_all (\<lambda>g. \<not> is_blank
       (form_data (contact_form (js ''Tyler'') (js ''tyler@example.com'') (js ''Hi'') (js ''Hello'')) g))
     requiredFields
   \<and> \<not> email_rejected
       (form_data (contact_form (js ''Tyler'') (js ''tyler@example.com'') (js ''Hi'') (js ''Hello''))
          ''email'')
   \<and> submitBtn (contact_form (js ''Tyler'') (js ''tyler@example.com'') (js ''Hi'') (js ''Hello''))
       = Some \<lparr>innerHTML = ''Send Message'', disabled = False\<rparr>
   \<and> page_idle (contact_form (js ''Tyler'') (js ''tyler@example.com'') (js ''Hi'') (js ''Hello''))
   \<and> (case handleContactForm
           (contact_form (js ''Tyler'') (js ''tyler@example.com'') (js ''Hi'') (js ''Hello'')) of
         Inl err \<Rightarrow> False
       | Inr p1 \<Rightarrow>
           submitBtn p1 = Some \<lparr>innerHTML = busy_label, disabled = True\<rparr>
           \<and> timeouts p1 = [(2000, SubmitDone ''Send Message'')]
           \<and> success_messages p1 = []
           \<and> (case run_page_until 1999 p1 of
                 Inl err \<Rightarrow> False
               | Inr q \<Rightarrow> submitBtn q = Some \<lparr>innerHTML = busy_label, disabled = True\<rparr>
                          \<and> success_messages q = []
                          \<and> form_data q ''name'' = Some (js ''Tyler''))
           \<and> (case run_page_until 2000 p1 of
                 Inl err \<Rightarrow> False
               | Inr q \<Rightarrow> submitBtn q = Some \<lparr>innerHTML = ''Send Message'', disabled = False\<rparr>
                          \<and> success_messages q = [5]
                          \<and> map (form_data q) requiredFields = [Some [], Some [], Some [], Some []]
                          \<and> timeouts q = [(7000, RemoveSuccess 5)])
           \<and> (case run_page_until 6999 p1 of
                 Inl err \<Rightarrow> False
               | Inr q \<Rightarrow> success_messages q = [5])
           \<and> (case run_page_until 7000 p1 of
                 Inl err \<Rightarrow> False
               | Inr q \<Rightarrow> submitBtn q = Some \<lparr>innerHTML = ''Send Message'', disabled = False\<rparr>
                          \<and> success_messages q = [] \<and> timeouts q = []))"
  using valid_submit_busy_then_success
    [of "contact_form (js ''Tyler'') (js ''tyler@example.com'') (js ''Hi'') (js ''Hello'')"
        "\<lparr>innerHTML = ''Send Message'', disabled = False\<rparr>"]
  by (simp add: form_eval page_idle_def run_page_until.simps showFormSuccess_def form_reset_def)

text \<open>
  Claim C10 at an email value of one space. On blur, \<^verbatim>\<open>validateField\<close> trims the value
  and leaves \<^verbatim>\<open>This field is required\<close> next to the field. On submit,
  \<^verbatim>\<open>validateForm\<close> finds the value blank and shows that message, then runs the email
  check on the untrimmed value and replaces the message by
  \<^verbatim>\<open>Please enter a valid email address\<close>; the submit is blocked.
\<close>

theorem blank_email_submit_message:
  "is_blank (form_data (contact_form (js ''Tyler'') (js '' '') (js ''Hi'') (js ''Hello'')) ''email'')
   \<and> \<not> fst (validateForm
         (form_data (contact_form (js ''Tyler'') (js '' '') (js ''Hi'') (js ''Hello'')))
         (contact_form (js ''Tyler'') (js '' '') (js ''Hi'') (js ''Hello'')))
   \<and> error_messages (snd (validateForm
         (form_data (contact_form (js ''Tyler'') (js '' '') (js ''Hi'') (js ''Hello'')))
         (contact_form (js ''Tyler'') (js '' '') (js ''Hi'') (js ''Hello'')))) 2
       = [''Please enter a valid email address'']
   \<and> error_messages (snd (validateField ''email''
         \<lparr>fvalue = js '' '', borderColor = [], parentNode = 2, required = True, defaultValue = []\<rparr>
         (contact_form (js ''Tyler'') (js '' '') (js ''Hi'') (js ''Hello'')))) 2
       = [''This field is required'']"
  by (simp add: form_eval)

section \<open>Properties of the project gallery\<close>

lemma run_card_callback_timeouts [simp]: "g_timeouts (run_card_callback cb g) = g_timeouts g"
  by (cases cb) simp_all

lemmas gallery_eval = click_at_def filterClick_def filter_card_def card_matches_def Let_def
  run_until.simps

lemma filter_card_fields:
  "cards (filter_card flt h i) = (cards h)[i := click_style flt (cards h ! i)]
   \<and> g_timeouts (filter_card flt h i)
       = g_timeouts h @ [if card_matches flt (cards h ! i) then (g_now h + 50, ShowCard i)
                         else (g_now h + 300, HideCard i)]
   \<and> g_now (filter_card flt h i) = g_now h"
  by (simp add: filter_card_def Let_def click_style_def)

lemma filter_cards_prefix:
  "n \<le> length (cards g) \<Longrightarrow>
   cards (foldl (filter_card flt) g [0..<n])
     = map (click_style flt) (take n (cards g)) @ drop n (cards g)
   \<and> g_timeouts (foldl (filter_card flt) g [0..<n])
     = g_timeouts g @ map (click_timeout flt g) [0..<n]
   \<and> g_now (foldl (filter_card flt) g [0..<n]) = g_now g"
proof (induction n)
  case 0
  show ?case by simp
next
  case (Suc n)
  let ?h = "foldl (filter_card flt) g [0..<n]"
  from Suc have n: "n < length (cards g)" and
    IH: "cards ?h = map (click_style flt) (take n (cards g)) @ drop n (cards g)"
      "g_timeouts ?h = g_timeouts g @ map (click_timeout flt g) [0..<n]"
      "g_now ?h = g_now g"
    by simp_all
  from n have nth: "cards ?h ! n = cards g ! n"
    by (simp add: IH(1) nth_append)
  have upd: "(cards ?h)[n := x] = map (click_style flt) (take n (cards g)) @ x # drop (Suc n) (cards g)" for x
    using n by (simp add: IH(1) list_update_append Cons_nth_drop_Suc [symmetric])
  have tk: "map (click_style flt) (take (Suc n) (cards g))
      = map (click_style flt) (take n (cards g)) @ [click_style flt (cards g ! n)]"
    using n by (simp add: take_Suc_conv_app_nth)
  have step: "foldl (filter_card flt) g [0..<Suc n] = filter_card flt ?h n" by simp
  show ?case
    unfolding step using filter_card_fields [of flt ?h n]
    by (simp add: nth upd tk IH(2,3) click_timeout_def)
qed

lemma filterClick_effect:
  "cards (filterClick flt g) = map (click_style flt) (cards g)
   \<and> g_timeouts (filterClick flt g)
       = g_timeouts g @ map (click_timeout flt g) [0..<length (cards g)]
   \<and> g_now (filterClick flt g) = g_now g"
  using filter_cards_prefix [of "length (cards g)" g flt] by (simp add: filterClick_def)

lemma run_until_all_due:
  "\<forall>t \<in> set (g_timeouts g). fst t \<le> T \<Longrightarrow>
   g_timeouts (run_until T g) = []
   \<and> length (cards (run_until T g)) = length (cards g)
   \<and> (\<forall>i < length (cards g).
        settled_card (snd ` set (g_timeouts g)) i (cards g ! i) (cards (run_until T g) ! i))"
proof (induction T g rule: run_until.induct)
  case (1 T g)
  show ?case
  proof (cases "earliest (g_timeouts g)")
    case None
    then have "g_timeouts g = []" by (simp add: earliest_None)
    with None show ?thesis by (simp add: settled_card_def run_until.simps [of T g])
  next
    case (Some t)
    then have mem: "t \<in> set (g_timeouts g)" by (rule earliest_mem)
    with "1.prems" have due: "fst t \<le> T" by simp
    let ?g0 = "g\<lparr>g_timeouts := remove1 t (g_timeouts g), g_now := max (g_now g) (fst t)\<rparr>"
    let ?g1 = "run_card_callback (snd t) ?g0"
    have ru: "run_until T g = run_until T ?g1" using Some due by (simp add: run_until.simps [of T g])
    have "\<forall>u \<in> set (g_timeouts ?g1). fst u \<le> T"
      using "1.prems" by (auto dest: notin_set_remove1)
    from "1.IH" [OF Some due this]
    have IH: "g_timeouts (run_until T ?g1) = []"
      "length (cards (run_until T ?g1)) = length (cards ?g1)"
      "\<forall>i < length (cards ?g1).
         settled_card (snd ` set (g_timeouts ?g1)) i (cards ?g1 ! i) (cards (run_until T ?g1) ! i)"
      by simp_all
    have len: "length (cards ?g1) = length (cards g)" by (cases "snd t") simp_all
    have sets: "set (g_timeouts g) = insert t (set (remove1 t (g_timeouts g)))"
      using mem by (rule set_remove1_insert)
    have cbs: "snd ` set (g_timeouts g) = insert (snd t) (snd ` set (g_timeouts ?g1))"
      by (subst sets) simp
    have "settled_card (snd ` set (g_timeouts g)) i (cards g ! i) (cards (run_until T ?g1) ! i)"
      if i: "i < length (cards g)" for i
    proof -
      from IH(3) i len
      have s: "settled_card (snd ` set (g_timeouts ?g1)) i (cards ?g1 ! i) (cards (run_until T ?g1) ! i)"
        by simp
      show ?thesis
      proof (cases "snd t")
        case (ShowCard j)
        with s i show ?thesis
          unfolding cbs by (cases "i = j") (auto simp add: settled_card_def)
      next
        case (HideCard j)
        with s i show ?thesis
          unfolding cbs by (cases "i = j") (auto simp add: settled_card_def)
      qed
    qed
    with IH(1,2) len show ?thesis unfolding ru by simp
  qed
qed

text \<open>
  Claim C8, as stated, fails: timers of an earlier click are not cancelled. With a card
  of category \<^verbatim>\<open>web\<close> and one of category \<^verbatim>\<open>mobile\<close>, a click on the \<^verbatim>\<open>web\<close>
  filter at time 0 and a click on the \<^verbatim>\<open>mobile\<close> filter 100 ms later, the timer of the
  first click hides the \<^verbatim>\<open>mobile\<close> card at 300 ms: once all timers have run, the card
  whose category equals the filter of the latest click has \<^verbatim>\<open>display: none\<close>.
\<close>

theorem rapid_filter_clicks_counterexample:
  "category (cards (run_until 1000 (click_at 100 (Some ''mobile'') (click_at 0 (Some ''web'')
       \<lparr>cards = [\<lparr>display = [], opacity = [], transform = [], transition = [],
                   category = Some ''web''\<rparr>,
                  \<lparr>display = [], opacity = [], transform = [], transition = [],
                   category = Some ''mobile''\<rparr>],
        g_now = 0, g_timeouts = []\<rparr>))) ! 1) = Some ''mobile''
   \<and> display (cards (run_until 1000 (click_at 100 (Some ''mobile'') (click_at 0 (Some ''web'')
       \<lparr>cards = [\<lparr>display = [], opacity = [], transform = [], transition = [],
                   category = Some ''web''\<rparr>,
                  \<lparr>display = [], opacity = [], transform = [], transition = [],
                   category = Some ''mobile''\<rparr>],
        g_now = 0, g_timeouts = []\<rparr>))) ! 1) = ''none''
   \<and> g_timeouts (run_until 1000 (click_at 100 (Some ''mobile'') (click_at 0 (Some ''web'')
       \<lparr>cards = [\<lparr>display = [], opacity = [], transform = [], transition = [],
                   category = Some ''web''\<rparr>,
                  \<lparr>display = [], opacity = [], transform = [], transition = [],
                   category = Some ''mobile''\<rparr>],
        g_now = 0, g_timeouts = []\<rparr>))) = []"
  by (simp add: gallery_eval)

text \<open>
  Claim C8, amended. A click on a filter button with filter value \<^verbatim>\<open>all\<close> sets the
  display of every project card to \<^verbatim>\<open>block\<close>, whatever its category. For a click made
  while no timer of an earlier click is pending, once the timers it set have run (300 ms
  later or more) no timer is left, every card still has its category, every card that
  matches the filter is shown (\<^verbatim>\<open>display: block\<close>, opacity 1, scale 1) and every other
  card has \<^verbatim>\<open>display: none\<close>; a filter value other than \<^verbatim>\<open>all\<close> matches exactly the
  cards whose \<^verbatim>\<open>data-category\<close> equals it, and \<^verbatim>\<open>all\<close> matches every card.
\<close>

theorem filter_shows_matching_cards:
  assumes "g_timeouts g = []" and "g_now g + 300 \<le> T"
  shows "g_timeouts (run_until T (filterClick flt g)) = []
       \<and> length (cards (run_until T (filterClick flt g))) = length (cards g)
       \<and> (\<forall>i < length (cards g).
             category (cards (run_until T (filterClick flt g)) ! i) = category (cards g ! i)
             \<and> (if card_matches flt (cards g ! i)
                 then display (cards (run_until T (filterClick flt g)) ! i) = ''block''
                    \<and> opacity (cards (run_until T (filterClick flt g)) ! i) = ''1''
                    \<and> transform (cards (run_until T (filterClick flt g)) ! i) = ''scale(1)''
                 else display (cards (run_until T (filterClick flt g)) ! i) = ''none''))
       \<and> (flt \<noteq> Some ''all'' \<longrightarrow> card_matches flt c = (category c = flt))
       \<and> card_matches (Some ''all'') c
       \<and> list_all (\<lambda>c. display c = ''block'') (cards (filterClick (Some ''all'') h))"
proof -
  let ?g1 = "filterClick flt g"
  let ?n = "length (cards g)"
  have fc: "cards ?g1 = map (click_style flt) (cards g)"
    "g_timeouts ?g1 = map (click_timeout flt g) [0..<?n]"
    using filterClick_effect [of flt g] assms(1) by simp_all
  have due: "\<forall>t \<in> set (g_timeouts ?g1). fst t \<le> T"
    using assms(2) by (auto simp add: fc(2) click_timeout_def)
  from run_until_all_due [OF due]
  have ru: "g_timeouts (run_until T ?g1) = []"
    "length (cards (run_until T ?g1)) = ?n"
    "\<forall>i < ?n. settled_card (snd ` set (g_timeouts ?g1)) i (cards ?g1 ! i) (cards (run_until T ?g1) ! i)"
    by (simp_all add: fc(1))
  have hide: "HideCard i \<in> snd ` set (g_timeouts ?g1) \<longleftrightarrow> \<not> card_matches flt (cards g ! i)"
    and shw: "ShowCard i \<in> snd ` set (g_timeouts ?g1) \<longleftrightarrow> card_matches flt (cards g ! i)"
    if "i < ?n" for i
  proof -
    have cb: "snd ` set (g_timeouts ?g1)
        = (\<lambda>j. if card_matches flt (cards g ! j) then ShowCard j else HideCard j) ` {0..<?n}"
      by (simp add: fc(2) click_timeout_def image_Un image_image)
    show "HideCard i \<in> snd ` set (g_timeouts ?g1) \<longleftrightarrow> \<not> card_matches flt (cards g ! i)"
      unfolding cb using that by (auto split: if_splits)
    show "ShowCard i \<in> snd ` set (g_timeouts ?g1) \<longleftrightarrow> card_matches flt (cards g ! i)"
      unfolding cb using that by (auto split: if_splits)
  qed
  have cards: "category (cards (run_until T ?g1) ! i) = category (cards g ! i)
      \<and> (if card_matches flt (cards g ! i)
          then display (cards (run_until T ?g1) ! i) = ''block''
             \<and> opacity (cards (run_until T ?g1) ! i) = ''1''
             \<and> transform (cards (run_until T ?g1) ! i) = ''scale(1)''
          else display (cards (run_until T ?g1) ! i) = ''none'')"
    if i: "i < ?n" for i
    using ru(3) i hide [OF i] shw [OF i]
    by (auto simp add: settled_card_def fc(1) click_style_def)
  have all: "list_all (\<lambda>c. display c = ''block'') (cards (filterClick (Some ''all'') h))"
    using filterClick_effect [of "Some ''all''" h]
    by (simp add: list_all_iff click_style_def card_matches_def)
  from ru(1,2) cards all show ?thesis
    by (auto simp add: card_matches_def)
qed

theorem filter_shows_matching_cards_witness:
  "g_timeouts \<lparr>cards = [\<lparr>display = [], opacity = [], transform = [], transition = [],
                           category = Some ''web''\<rparr>,
                          \<lparr>display = [], opacity = [], transform = [], transition = [],
                           category = Some ''mobile''\<rparr>],
                g_now = 0, g_timeouts = []\<rparr> = []
   \<and> g_now \<lparr>cards = [\<lparr>display = [], opacity = [], transform = [], transition = [],
                        category = Some ''web''\<rparr>,
                       \<lparr>display = [], opacity = [], transform = [], transition = [],
                        category = Some ''mobile''\<rparr>],
             g_now = 0, g_timeouts = []\<rparr> + 300 \<le> (300 :: nat)
   \<and> map display (cards (run_until 300 (filterClick (Some ''web'')
        \<lparr>cards = [\<lparr>display = [], opacity = [], transform = [], transition = [],
                    category = Some ''web''\<rparr>,
                   \<lparr>display = [], opacity = [], transform = [], transition = [],
                    category = Some ''mobile''\<rparr>],
         g_now = 0, g_timeouts = []\<rparr>))) = [''block'', ''none'']
   \<and> g_timeouts (run_until 300 (filterClick (Some ''web'')
        \<lparr>cards = [\<lparr>display = [], opacity = [], transform = [], transition = [],
                    category = Some ''web''\<rparr>,
                   \<lparr>display = [], opacity = [], transform = [], transition = [],
                    category = Some ''mobile''\<rparr>],
         g_now = 0, g_timeouts = []\<rparr>)) = []"
  using filter_shows_matching_cards
    [of "\<lparr>cards = [\<lparr>display = [], opacity = [], transform = [], transition = [],
                      category = Some ''web''\<rparr>,
                     \<lparr>display = [], opacity = [], transform = [], transition = [],
                      category = Some ''mobile''\<rparr>],
           g_now = 0, g_timeouts = []\<rparr>" 300 "Some ''web''"]
  by (simp add: gallery_eval)

section \<open>Properties of the animation controller\<close>

lemma observe_fold_keeps:
  "reveals (foldl observe_element m els) = reveals m
   \<and> threshold (observer (foldl observe_element m els)) = threshold (observer m)
   \<and> rootMargin (observer (foldl observe_element m els)) = rootMargin (observer m)"
  by (induction els arbitrary: m) (simp_all add: observe_element_def)

lemma observeElements_keeps:
  "reveals (observeElements sel m) = reveals m
   \<and> threshold (observer (observeElements sel m)) = threshold (observer m)
   \<and> rootMargin (observer (observeElements sel m)) = rootMargin (observer m)"
  unfolding observeElements_def
  by (induction sel arbitrary: m) (simp_all add: observe_fold_keeps)

lemma constructor_inv: "anim_inv (AnimationManager_constructor st sel)"
  by (simp add: anim_inv_def AnimationManager_constructor_def observeElements_keeps)

lemma animateElement_fields:
  "reveals (animateElement e m) = reveals m @ [e]"
  "targets (observer (animateElement e m)) = targets (observer m) - {e}"
  "threshold (observer (animateElement e m)) = threshold (observer m)"
  "rootMargin (observer (animateElement e m)) = rootMargin (observer m)"
  by (simp_all add: animateElement_def)

lemma animateElement_inv:
  assumes "anim_inv m" and "e \<in> targets (observer m)"
  shows "anim_inv (animateElement e m)"
proof -
  from assms have new: "e \<notin> set (reveals m)"
    by (auto simp add: anim_inv_def list_all_iff is_revealed_def)
  have "is_revealed (animateElement e m) x" if "x = e \<or> is_revealed m x" for x
    using that by (auto simp add: is_revealed_def animateElement_def)
  with assms(1) new show ?thesis
    by (auto simp add: anim_inv_def list_all_iff animateElement_fields)
qed

lemma observer_callback_effect:
  assumes "anim_inv m" and "delivered m entries"
  shows "anim_inv (observer_callback entries m)
       \<and> reveals (observer_callback entries m)
           = reveals m @ map target (filter isIntersecting entries)
       \<and> targets (observer (observer_callback entries m))
           = targets (observer m) - target ` {en \<in> set entries. isIntersecting en}"
  using assms
proof (induction entries arbitrary: m)
  case Nil
  then show ?case by (simp add: observer_callback_def)
next
  case (Cons en ens)
  let ?m1 = "if isIntersecting en then animateElement (target en) m else m"
  have cb: "observer_callback (en # ens) m = observer_callback ens ?m1"
    by (simp add: observer_callback_def)
  from Cons.prems have en: "target en \<in> targets (observer m)"
    and rest: "distinct (map target ens)" "target en \<notin> target ` set ens"
      "list_all (\<lambda>x. target x \<in> targets (observer m)) ens"
    by (simp_all add: delivered_def)
  have inv1: "anim_inv ?m1" using Cons.prems(1) en by (simp add: animateElement_inv)
  have "list_all (\<lambda>x. target x \<in> targets (observer ?m1)) ens"
    using rest(2,3) by (auto simp add: list_all_iff animateElement_fields image_iff)
  with rest(1) have del1: "delivered ?m1 ens" by (simp add: delivered_def)
  from Cons.IH [OF inv1 del1] show ?case
    unfolding cb by (auto simp add: animateElement_fields)
qed

lemma anim_reachable_inv: "anim_reachable st sel m \<Longrightarrow> anim_inv m"
proof (induction rule: anim_reachable.induct)
  case loaded
  show ?case by (rule constructor_inv)
next
  case (notified m entries)
  then show ?case by (simp add: observer_callback_effect)
qed

lemma distinct_count_le_1: "distinct xs \<Longrightarrow> count_list xs e \<le> 1"
  by (induction xs) (auto simp add: count_list_0_iff)

text \<open>
  Claim C9. The observer is created with threshold 0.1 and root margin
  \<^verbatim>\<open>0px 0px -50px 0px\<close>. In every state the controller can reach and for every batch
  of entries the browser delivers there: an entry that reports an element as
  intersecting reveals it, and the element had not been revealed before; no element is
  revealed more than once; a revealed element is not observed any more and has the
  revealed style (opacity 1, no offset); an element revealed earlier has no entry in the
  batch, keeps that state and is not revealed again.
\<close>

theorem reveal_fires_at_most_once:
  assumes "anim_reachable page_styles selected m" and "delivered m entries"
  shows "count_list (reveals (observer_callback entries m)) e \<le> 1
       \<and> (e \<in> set (reveals (observer_callback entries m))
            \<longrightarrow> is_revealed (observer_callback entries m) e)
       \<and> (e \<in> set (reveals m)
            \<longrightarrow> is_revealed m e \<and> e \<notin> target ` set entries
              \<and> count_list (reveals (observer_callback entries m)) e = count_list (reveals m) e)
       \<and> (\<lparr>target = e, isIntersecting = True\<rparr> \<in> set entries
            \<longrightarrow> e \<notin> set (reveals m) \<and> e \<in> set (reveals (observer_callback entries m)))
       \<and> threshold (observer m) = 1 / 10 \<and> rootMargin (observer m) = ''0px 0px -50px 0px''"
proof -
  let ?m' = "observer_callback entries m"
  from assms(1) have inv: "anim_inv m" by (rule anim_reachable_inv)
  from observer_callback_effect [OF inv assms(2)]
  have inv': "anim_inv ?m'"
    and log: "reveals ?m' = reveals m @ map target (filter isIntersecting entries)"
    by simp_all
  have old: "is_revealed m e \<and> e \<notin> target ` set entries" if "e \<in> set (reveals m)"
    using that inv assms(2) by (auto simp add: anim_inv_def delivered_def list_all_iff is_revealed_def)
  have cnt: "count_list (reveals ?m') e = count_list (reveals m) e" if "e \<in> set (reveals m)"
  proof -
    from old [OF that] have "e \<notin> set (map target (filter isIntersecting entries))" by auto
    then show ?thesis by (simp add: log count_list_0_iff)
  qed
  have new: "e \<notin> set (reveals m) \<and> e \<in> set (reveals ?m')"
    if "\<lparr>target = e, isIntersecting = True\<rparr> \<in> set entries"
  proof -
    from that have "e \<in> target ` set entries" by force
    with old have "e \<notin> set (reveals m)" by blast
    moreover from that have "e \<in> set (map target (filter isIntersecting entries))" by force
    ultimately show ?thesis by (simp add: log)
  qed
  from inv' have "distinct (reveals ?m')" by (simp add: anim_inv_def)
  then have "count_list (reveals ?m') e \<le> 1" by (rule distinct_count_le_1)
  moreover from inv' have "e \<in> set (reveals ?m') \<longrightarrow> is_revealed ?m' e"
    by (simp add: anim_inv_def list_all_iff)
  ultimately show ?thesis using old cnt new inv by (simp add: anim_inv_def)
qed
theorem reveal_fires_at_most_once_witness:
  "anim_reachable (\<lambda>e. \<lparr>display = [], opacity = [], transform = [], transition = []\<rparr>) [[10, 20], [30]]
     (observer_callback [\<lparr>target = 10, isIntersecting = True\<rparr>, \<lparr>target = 20, isIntersecting = False\<rparr>]
        (AnimationManager_constructor
           (\<lambda>e. \<lparr>display = [], opacity = [], transform = [], transition = []\<rparr>) [[10, 20], [30]]))
   \<and> delivered
     (observer_callback [\<lparr>target = 10, isIntersecting = True\<rparr>, \<lparr>target = 20, isIntersecting = False\<rparr>]
        (AnimationManager_constructor
           (\<lambda>e. \<lparr>display = [], opacity = [], transform = [], transition = []\<rparr>) [[10, 20], [30]]))
     [\<lparr>target = 20, isIntersecting = True\<rparr>, \<lparr>target = 30, isIntersecting = False\<rparr>]
   \<and> reveals (observer_callback
        [\<lparr>target = 20, isIntersecting = True\<rparr>, \<lparr>target = 30, isIntersecting = False\<rparr>]
        (observer_callback [\<lparr>target = 10, isIntersecting = True\<rparr>, \<lparr>target = 20, isIntersecting = False\<rparr>]
           (AnimationManager_constructor
              (\<lambda>e. \<lparr>display = [], opacity = [], transform = [], transition = []\<rparr>) [[10, 20], [30]])))
       = [10, 20]
   \<and> is_revealed (observer_callback
        [\<lparr>target = 20, isIntersecting = True\<rparr>, \<lparr>target = 30, isIntersecting = False\<rparr>]
        (observer_callback [\<lparr>target = 10, isIntersecting = True\<rparr>, \<lparr>target = 20, isIntersecting = False\<rparr>]
           (AnimationManager_constructor
              (\<lambda>e. \<lparr>display = [], opacity = [], transform = [], transition = []\<rparr>) [[10, 20], [30]]))) 10
   \<and> count_list (reveals (observer_callback
        [\<lparr>target = 20, isIntersecting = True\<rparr>, \<lparr>target = 30, isIntersecting = False\<rparr>]
        (observer_callback [\<lparr>target = 10, isIntersecting = True\<rparr>, \<lparr>target = 20, isIntersecting = False\<rparr>]
           (AnimationManager_constructor
              (\<lambda>e. \<lparr>display = [], opacity = [], transform = [], transition = []\<rparr>) [[10, 20], [30]])))) 10
       \<le> 1"
proof -
  let ?st = "\<lambda>e::nat. \<lparr>display = [], opacity = [], transform = [], transition = []\<rparr>"
  let ?m0 = "AnimationManager_constructor ?st [[10, 20], [30]]"
  let ?m1 = "observer_callback
    [\<lparr>target = 10, isIntersecting = True\<rparr>, \<lparr>target = 20, isIntersecting = False\<rparr>] ?m0"
  have t0: "targets (observer ?m0) = {10, 20, 30}"
    by (auto simp add: AnimationManager_constructor_def observeElements_def observe_element_def)
  have t1: "targets (observer ?m1) = {20, 30}"
    by (auto simp add: observer_callback_def animateElement_def t0)
  have d0: "delivered ?m0 [\<lparr>target = 10, isIntersecting = True\<rparr>, \<lparr>target = 20, isIntersecting = False\<rparr>]"
    by (simp add: delivered_def t0)
  have r1: "anim_reachable ?st [[10, 20], [30]] ?m1"
    by (rule notified [OF loaded d0])
  have d1: "delivered ?m1 [\<lparr>target = 20, isIntersecting = True\<rparr>, \<lparr>target = 30, isIntersecting = False\<rparr>]"
    by (simp add: delivered_def t1)
  have log: "reveals (observer_callback
      [\<lparr>target = 20, isIntersecting = True\<rparr>, \<lparr>target = 30, isIntersecting = False\<rparr>] ?m1) = [10, 20]"
    by (simp add: observer_callback_def animateElement_def AnimationManager_constructor_def
        observeElements_def observe_element_def)
  from reveal_fires_at_most_once [OF r1 d1, of 10] r1 d1 log show ?thesis
    by simp
qed

end
